theory Spec2Isabelle
  imports
    Complex_Main
    "HOL-Library.AList"
    "HOL-Library.Char_ord"
    "HOL-Library.List_Lexorder"
    "HOL-Library.Product_Lexorder"
begin

section \<open>Data model\<close>

text \<open>
  Timestamps are \<^verbatim>\<open>datetime\<close> values, read as microseconds since the epoch.
  Feature values and metadata are JSON documents (the JSONB columns of
  \<^verbatim>\<open>feature_values\<close>); numbers are restricted to integers here.
\<close>

type_synonym timestamp = int

datatype json =
    JNull
  | JBool bool
  | JInt int
  | JStr string
  | JArr "json list"
  | JObj "(string \<times> json) list"

text \<open>Python truthiness, as used by \<^verbatim>\<open>row['metadata'] or {}\<close>.\<close>

fun truthy :: "json \<Rightarrow> bool" where
  "truthy JNull = False"
| "truthy (JBool b) = b"
| "truthy (JInt n) = (n \<noteq> 0)"
| "truthy (JStr s) = (s \<noteq> [])"
| "truthy (JArr xs) = (xs \<noteq> [])"
| "truthy (JObj kvs) = (kvs \<noteq> [])"

text \<open>A row of the \<^verbatim>\<open>features\<close> table (the columns the value queries read).\<close>

record feature =
  f_id :: int
  f_name :: string
  f_version :: int

text \<open>
  A row of the \<^verbatim>\<open>feature_values\<close> table; it is also the shape of the
  dicts handed to \<^verbatim>\<open>write_features\<close>.
\<close>

record feature_value =
  fv_feature_id :: int
  fv_entity_id :: string
  fv_timestamp :: timestamp
  fv_value :: json
  fv_metadata :: json

text \<open>A row returned by the point-in-time query of \<^verbatim>\<open>get_features\<close>.\<close>

record qrow =
  q_entity_id :: string
  q_feature_name :: string
  q_value :: json
  q_timestamp :: timestamp
  q_metadata :: json

text \<open>The innermost dict of the result of \<^verbatim>\<open>get_features\<close>.\<close>

record fdata =
  d_value :: json
  d_timestamp :: timestamp
  d_metadata :: json

datatype exn =
    PostgresError
  | DataError
  | RedisError
  | UnpackError
  | TypeError
  | OverflowError
  | AttributeError

text \<open>
  The PostgreSQL server behind the connection pool. \<open>pg_faults\<close> is the schedule of the
  coming round trips: each acquisition of a connection with its statement consumes the
  head, and \<open>True\<close> means that it raises (connectivity, pool exhaustion, timeout). An
  exhausted schedule means no further fault. \<open>pg_statements\<close> counts the round trips
  made so far.
\<close>

record postgres =
  pg_features :: "feature list"
  pg_feature_values :: "feature_value list"
  pg_faults :: "bool list"
  pg_statements :: nat

definition pg_roundtrip :: "postgres \<Rightarrow> bool \<times> postgres" where
  "pg_roundtrip pg =
     (case pg_faults pg of
        [] \<Rightarrow> (False, pg\<lparr>pg_statements := pg_statements pg + 1\<rparr>)
      | b # bs \<Rightarrow> (b, pg\<lparr>pg_faults := bs, pg_statements := pg_statements pg + 1\<rparr>))"

section \<open>Durable store: \<^verbatim>\<open>FeatureStore.get_features\<close>\<close>

text \<open>\<^verbatim>\<open>FROM feature_values fv JOIN features f ON f.id = fv.feature_id\<close>\<close>

definition join_rows :: "postgres \<Rightarrow> qrow list" where
  "join_rows pg =
     concat (map (\<lambda>fv.
        map (\<lambda>f. \<lparr>q_entity_id = fv_entity_id fv, q_feature_name = f_name f,
                  q_value = fv_value fv, q_timestamp = fv_timestamp fv,
                  q_metadata = fv_metadata fv\<rparr>)
            (filter (\<lambda>f. f_id f = fv_feature_id fv) (pg_features pg)))
        (pg_feature_values pg))"

text \<open>
  \<^verbatim>\<open>WHERE fv.entity_id = ANY($1) AND f.name = ANY($2) AND fv.timestamp <= $3\<close>
\<close>

definition where_clause :: "string list \<Rightarrow> string list \<Rightarrow> timestamp \<Rightarrow> qrow \<Rightarrow> bool" where
  "where_clause entity_ids feature_names ts r \<longleftrightarrow>
     q_entity_id r \<in> set entity_ids \<and> q_feature_name r \<in> set feature_names \<and> q_timestamp r \<le> ts"

text \<open>\<^verbatim>\<open>ORDER BY fv.entity_id, f.name, fv.timestamp DESC\<close>\<close>

definition order_key :: "qrow \<Rightarrow> string \<times> string \<times> int" where
  "order_key r = (q_entity_id r, q_feature_name r, - q_timestamp r)"

definition same_group :: "qrow \<Rightarrow> qrow \<Rightarrow> bool" where
  "same_group x y \<longleftrightarrow> q_entity_id x = q_entity_id y \<and> q_feature_name x = q_feature_name y"

text \<open>
  \<^verbatim>\<open>SELECT DISTINCT ON (fv.entity_id, f.name)\<close>: of each run of rows that agree on
  the two expressions, the first row is kept.
\<close>

fun distinct_on :: "qrow list \<Rightarrow> qrow list" where
  "distinct_on [] = []"
| "distinct_on [x] = [x]"
| "distinct_on (x # y # xs) =
     (if same_group x y then distinct_on (x # xs) else x # distinct_on (y # xs))"

definition point_in_time_query :: "postgres \<Rightarrow> string list \<Rightarrow> string list \<Rightarrow> timestamp \<Rightarrow> qrow list" where
  "point_in_time_query pg entity_ids feature_names ts =
     distinct_on (sort_key order_key
       (filter (where_clause entity_ids feature_names ts) (join_rows pg)))"

text \<open>
  The reshaping loop. Python dicts are association lists updated with
  \<^const>\<open>AList.update\<close>: an existing key keeps its place, a new key goes to the end.
\<close>

definition row_data :: "qrow \<Rightarrow> fdata" where
  "row_data r =
     \<lparr>d_value = q_value r, d_timestamp = q_timestamp r,
      d_metadata = (if truthy (q_metadata r) then q_metadata r else JObj [])\<rparr>"

definition reshape_step ::
  "(string \<times> (string \<times> fdata) list) list \<Rightarrow> qrow \<Rightarrow> (string \<times> (string \<times> fdata) list) list" where
  "reshape_step result r =
     (let inner = (case map_of result (q_entity_id r) of None \<Rightarrow> [] | Some m \<Rightarrow> m)
      in AList.update (q_entity_id r) (AList.update (q_feature_name r) (row_data r) inner) result)"

definition reshape :: "qrow list \<Rightarrow> (string \<times> (string \<times> fdata) list) list" where
  "reshape rows = foldl reshape_step [] rows"

text \<open>
  \<open>now\<close> is the reading of \<^verbatim>\<open>datetime.utcnow()\<close> taken when no timestamp is passed.
  A failure of the round trip is logged and re-raised.
\<close>

definition get_features ::
  "postgres \<Rightarrow> timestamp \<Rightarrow> string list \<Rightarrow> string list \<Rightarrow> timestamp option
     \<Rightarrow> (exn + (string \<times> (string \<times> fdata) list) list) \<times> postgres" where
  "get_features pg now entity_ids feature_names timestamp =
     (let ts = (case timestamp of None \<Rightarrow> now | Some t \<Rightarrow> t);
          (failed, pg') = pg_roundtrip pg
      in if failed then (Inl PostgresError, pg')
         else (Inr (reshape (point_in_time_query pg entity_ids feature_names ts)), pg'))"

text \<open>Reading one slot of the nested result.\<close>

definition slot :: "(string \<times> (string \<times> fdata) list) list \<Rightarrow> string \<Rightarrow> string \<Rightarrow> fdata option" where
  "slot result e n = (case map_of result e of None \<Rightarrow> None | Some m \<Rightarrow> map_of m n)"


text \<open>
  What the store holds for one slot at one instant: the rows of entity \<open>e\<close> whose feature
  is named \<open>n\<close>, with a timestamp not after \<open>t\<close>; and a stored row as the result shows it.
\<close>

definition grp :: "qrow \<Rightarrow> string \<times> string" where
  "grp r = (q_entity_id r, q_feature_name r)"

definition stored_rows :: "postgres \<Rightarrow> string \<Rightarrow> string \<Rightarrow> timestamp \<Rightarrow> feature_value set" where
  "stored_rows pg e n t =
     {fv \<in> set (pg_feature_values pg).
        fv_entity_id fv = e \<and> fv_timestamp fv \<le> t \<and>
        (\<exists>f \<in> set (pg_features pg). f_id f = fv_feature_id fv \<and> f_name f = n)}"

definition stored_data :: "feature_value \<Rightarrow> fdata" where
  "stored_data fv =
     \<lparr>d_value = fv_value fv, d_timestamp = fv_timestamp fv,
      d_metadata = (if truthy (fv_metadata fv) then fv_metadata fv else JObj [])\<rparr>"

section \<open>Durable store: \<^verbatim>\<open>FeatureStore.write_features\<close>\<close>

text \<open>
  A Python object handed over as the argument of a JSONB parameter. No codec is set on
  the connections, so the driver takes a \<^verbatim>\<open>str\<close> only: a \<^verbatim>\<open>str\<close> holding the
  JSON text of a document, a \<^verbatim>\<open>str\<close> that is not JSON text, or an object that is
  not a \<^verbatim>\<open>str\<close> (a dict, a number, a list). \<^verbatim>\<open>None\<close> is not among the modelled
  arguments.
\<close>

datatype pyarg = JsonText json | InvalidText | NonStr

text \<open>
  One element of the batch. \<^verbatim>\<open>f.get('metadata', {})\<close>: the metadata key may be
  absent, and the default is a dict.
\<close>

record feature_input =
  fi_feature_id :: int
  fi_entity_id :: string
  fi_timestamp :: timestamp
  fi_value :: pyarg
  fi_metadata :: "pyarg option"

text \<open>
  Binding one JSONB argument: an object that is not a \<^verbatim>\<open>str\<close> is refused by the
  driver, a \<^verbatim>\<open>str\<close> that is not JSON text by the server; both raise a
  \<^verbatim>\<open>DataError\<close>.
\<close>

definition jsonb_arg :: "pyarg \<Rightarrow> exn + json" where
  "jsonb_arg a = (case a of JsonText j \<Rightarrow> Inr j | InvalidText \<Rightarrow> Inl DataError | NonStr \<Rightarrow> Inl DataError)"

definition insert_args :: "feature_input \<Rightarrow> exn + feature_value" where
  "insert_args f =
     (case jsonb_arg (fi_value f) of
        Inl e \<Rightarrow> Inl e
      | Inr v \<Rightarrow>
          (case jsonb_arg (case fi_metadata f of None \<Rightarrow> NonStr | Some m \<Rightarrow> m) of
             Inl e \<Rightarrow> Inl e
           | Inr m \<Rightarrow>
               Inr \<lparr>fv_feature_id = fi_feature_id f, fv_entity_id = fi_entity_id f,
                    fv_timestamp = fi_timestamp f, fv_value = v, fv_metadata = m\<rparr>))"

text \<open>The argument tuples of the whole batch: the first row that cannot be bound raises.\<close>

fun bind_all :: "feature_input list \<Rightarrow> exn + feature_value list" where
  "bind_all [] = Inr []"
| "bind_all (f # fs) =
     (case insert_args f of
        Inl e \<Rightarrow> Inl e
      | Inr r \<Rightarrow> (case bind_all fs of Inl e \<Rightarrow> Inl e | Inr rs \<Rightarrow> Inr (r # rs)))"

text \<open>\<^verbatim>\<open>ON CONFLICT (feature_id, entity_id, timestamp)\<close>\<close>

definition conflict :: "feature_value \<Rightarrow> feature_value \<Rightarrow> bool" where
  "conflict x r \<longleftrightarrow>
     fv_feature_id x = fv_feature_id r \<and> fv_entity_id x = fv_entity_id r \<and>
     fv_timestamp x = fv_timestamp r"

text \<open>
  \<^verbatim>\<open>INSERT ... ON CONFLICT ... DO UPDATE SET value = EXCLUDED.value,
  metadata = EXCLUDED.metadata\<close>, one statement of the \<^verbatim>\<open>executemany\<close>.
\<close>

fun upsert :: "feature_value \<Rightarrow> feature_value list \<Rightarrow> feature_value list" where
  "upsert r [] = [r]"
| "upsert r (x # xs) =
     (if conflict x r then x\<lparr>fv_value := fv_value r, fv_metadata := fv_metadata r\<rparr> # xs
      else x # upsert r xs)"

definition executemany :: "feature_value list \<Rightarrow> feature_value list \<Rightarrow> feature_value list" where
  "executemany table args = foldl (\<lambda>t r. upsert r t) table args"

text \<open>
  The empty batch returns before the pool is touched. A failing round trip, or a row
  that cannot be bound, leaves the table as it was (\<^verbatim>\<open>executemany\<close> is atomic) and
  the exception is re-raised. A round trip that fails is taken to fail before the
  transaction commits.
\<close>

definition write_features :: "postgres \<Rightarrow> feature_input list \<Rightarrow> (exn + unit) \<times> postgres" where
  "write_features pg features =
     (if features = [] then (Inr (), pg)
      else
        let (failed, pg') = pg_roundtrip pg
        in if failed then (Inl PostgresError, pg')
           else
             (case bind_all features of
                Inl e \<Rightarrow> (Inl e, pg')
              | Inr args \<Rightarrow>
                  (Inr (),
                   pg'\<lparr>pg_feature_values := executemany (pg_feature_values pg) args\<rparr>)))"

section \<open>Cache tier: \<^verbatim>\<open>FeatureCache\<close>\<close>

text \<open>
  The timestamp of a cache record as a Python object: a \<^verbatim>\<open>datetime\<close>, or the
  \<^verbatim>\<open>str\<close> that \<^verbatim>\<open>isoformat()\<close> gives for it.
\<close>

datatype pytime = DateTime timestamp | IsoString timestamp

fun instant :: "pytime \<Rightarrow> timestamp" where
  "instant (DateTime t) = t"
| "instant (IsoString t) = t"

text \<open>The record kept under a cache key: value, timestamp and, optionally, freshness.\<close>

record cache_entry =
  c_value :: json
  c_timestamp :: pytime
  c_freshness_seconds :: "rat option"

text \<open>
  The bytes stored under a Redis key: the msgpack encoding of a record, the empty
  string, or bytes that \<^verbatim>\<open>msgpack.unpackb\<close> rejects.
\<close>

datatype blob = Packed cache_entry | EmptyBytes | Malformed

text \<open>
  \<^verbatim>\<open>msgpack.packb(value, use_bin_type=True)\<close> writes the fields in order. An integer
  outside the 64-bit range raises \<^verbatim>\<open>OverflowError\<close>, and a \<^verbatim>\<open>datetime\<close> raises
  \<^verbatim>\<open>TypeError\<close>: no \<^verbatim>\<open>default\<close> hook and no \<^verbatim>\<open>datetime\<close> option is passed.
\<close>

fun packable :: "json \<Rightarrow> bool" where
  "packable JNull = True"
| "packable (JBool b) = True"
| "packable (JInt n) = (- (2 ^ 63) \<le> n \<and> n < 2 ^ 64)"
| "packable (JStr s) = True"
| "packable (JArr xs) = list_all packable xs"
| "packable (JObj kvs) = list_all packable (map snd kvs)"

definition packb :: "cache_entry \<Rightarrow> exn + blob" where
  "packb v =
     (if \<not> packable (c_value v) then Inl OverflowError
      else (case c_timestamp v of
              DateTime t \<Rightarrow> Inl TypeError
            | IsoString t \<Rightarrow> Inr (Packed v)))"

fun unpackb :: "blob \<Rightarrow> exn + cache_entry" where
  "unpackb (Packed v) = Inr v"
| "unpackb EmptyBytes = Inl UnpackError"
| "unpackb Malformed = Inl UnpackError"

text \<open>
  What happens to one round trip: the command runs and its reply arrives; the command
  never reaches the server; or the command runs on the server but its reply does not
  arrive in time (the client has a socket timeout). The last two raise in the client.
\<close>

datatype fault = Delivered | Refused | ReplyLost

text \<open>
  The Redis server: each key holds its bytes and the TTL (seconds) it was set with.
  \<open>rd_faults\<close> schedules the coming round trips; an exhausted schedule means no
  further fault. The passing of time is not part of the state: a key stays until it is
  deleted or overwritten. A pipeline takes effect as a whole or not at all.
\<close>

record redis =
  rd_keys :: "(string \<times> blob \<times> nat) list"
  rd_faults :: "fault list"

text \<open>Whether the next round trip raises, and the server after it.\<close>

definition redis_roundtrip :: "redis \<Rightarrow> bool \<times> redis" where
  "redis_roundtrip r =
     (case rd_faults r of
        [] \<Rightarrow> (False, r)
      | b # bs \<Rightarrow> (b \<noteq> Delivered, r\<lparr>rd_faults := bs\<rparr>))"

text \<open>Whether the command of the next round trip runs on the server.\<close>

definition reaches_server :: "redis \<Rightarrow> bool" where
  "reaches_server r = (case rd_faults r of [] \<Rightarrow> True | b # bs \<Rightarrow> b \<noteq> Refused)"

text \<open>\<^verbatim>\<open>msgpack.unpackb(r, raw=False) if r else None\<close>\<close>

definition decode_one :: "blob option \<Rightarrow> exn + cache_entry option" where
  "decode_one r =
     (case r of
        None \<Rightarrow> Inr None
      | Some EmptyBytes \<Rightarrow> Inr None
      | Some b \<Rightarrow> (case unpackb b of Inl e \<Rightarrow> Inl e | Inr v \<Rightarrow> Inr (Some v)))"

text \<open>The list comprehension: the first failing element raises out of it.\<close>

fun decode_all :: "blob option list \<Rightarrow> exn + cache_entry option list" where
  "decode_all [] = Inr []"
| "decode_all (r # rs) =
     (case decode_one r of
        Inl e \<Rightarrow> Inl e
      | Inr v \<Rightarrow> (case decode_all rs of Inl e \<Rightarrow> Inl e | Inr vs \<Rightarrow> Inr (v # vs)))"

definition redis_get :: "redis \<Rightarrow> string \<Rightarrow> blob option" where
  "redis_get r k = map_option fst (map_of (rd_keys r) k)"

text \<open>The body of the \<^verbatim>\<open>try\<close> of \<^verbatim>\<open>get_many\<close>: one pipelined round trip.\<close>

definition get_many_try :: "redis \<Rightarrow> string list \<Rightarrow> (exn + cache_entry option list) \<times> redis" where
  "get_many_try r keys =
     (let (failed, r') = redis_roundtrip r
      in if failed then (Inl RedisError, r')
         else (decode_all (map (redis_get r) keys), r'))"

text \<open>
  The result is what the caller sees: \<open>Inl\<close> would be an exception leaving
  \<^verbatim>\<open>get_many\<close>.
\<close>

definition get_many :: "redis \<Rightarrow> string list \<Rightarrow> (exn + cache_entry option list) \<times> redis" where
  "get_many r keys =
     (if keys = [] then (Inr [], r)
      else
        (case get_many_try r keys of
           (Inl e, r') \<Rightarrow> (Inr (replicate (length keys) None), r')
         | (Inr vs, r') \<Rightarrow> (Inr vs, r')))"

text \<open>
  The loop that fills the pipeline: each value is serialized before its
  \<^verbatim>\<open>SETEX\<close> is queued, and the first value that cannot be serialized raises out of
  the loop, before anything is sent.
\<close>

fun pack_all :: "(string \<times> cache_entry) list \<Rightarrow> exn + (string \<times> blob) list" where
  "pack_all [] = Inr []"
| "pack_all (e # es) =
     (case packb (snd e) of
        Inl x \<Rightarrow> Inl x
      | Inr b \<Rightarrow> (case pack_all es of Inl x \<Rightarrow> Inl x | Inr bs \<Rightarrow> Inr ((fst e, b) # bs)))"

definition setex :: "nat \<Rightarrow> (string \<times> blob \<times> nat) list \<Rightarrow> string \<times> blob \<Rightarrow> (string \<times> blob \<times> nat) list" where
  "setex ttl kv c = AList.update (fst c) (snd c, ttl) kv"

text \<open>
  The body of the \<^verbatim>\<open>try\<close> of \<^verbatim>\<open>set_many\<close>. A pipeline whose reply is lost
  has written its keys all the same.
\<close>

definition set_many_try :: "redis \<Rightarrow> (string \<times> cache_entry) list \<Rightarrow> nat \<Rightarrow> (exn + unit) \<times> redis" where
  "set_many_try r data ttl =
     (case pack_all data of
        Inl e \<Rightarrow> (Inl e, r)
      | Inr cmds \<Rightarrow>
          let (failed, r') = redis_roundtrip r;
              r'' = (if reaches_server r
                     then r'\<lparr>rd_keys := foldl (setex ttl) (rd_keys r) cmds\<rparr> else r')
          in (if failed then Inl RedisError else Inr (), r''))"

definition set_many :: "redis \<Rightarrow> (string \<times> cache_entry) list \<Rightarrow> nat \<Rightarrow> (exn + unit) \<times> redis" where
  "set_many r data ttl =
     (if data = [] then (Inr (), r)
      else
        (case set_many_try r data ttl of
           (Inl e, r') \<Rightarrow> (Inr (), r')
         | (Inr u, r') \<Rightarrow> (Inr u, r')))"

text \<open>
  The body of the \<^verbatim>\<open>try\<close> of \<^verbatim>\<open>invalidate\<close>: the scan, then one
  \<^verbatim>\<open>DEL\<close> when the scan found keys. \<open>matches\<close> is the glob matching of the Redis
  server. A \<^verbatim>\<open>DEL\<close> whose reply is lost has deleted the keys all the same.
\<close>

definition invalidate_try ::
  "(string \<Rightarrow> string \<Rightarrow> bool) \<Rightarrow> redis \<Rightarrow> string \<Rightarrow> (exn + nat) \<times> redis" where
  "invalidate_try matches r pattern =
     (let (failed, r1) = redis_roundtrip r
      in if failed then (Inl RedisError, r1)
         else
           let keys = filter (matches pattern) (map fst (rd_keys r))
           in if keys \<noteq> [] then
                (let (failed', r2) = redis_roundtrip r1;
                     r3 = (if reaches_server r1
                           then r2\<lparr>rd_keys := filter (\<lambda>kv. fst kv \<notin> set keys) (rd_keys r)\<rparr>
                           else r2)
                 in (if failed' then Inl RedisError else Inr (length (remdups keys)), r3))
              else (Inr 0, r1))"

text \<open>\<^verbatim>\<open>except Exception as e: logger.error(...); return 0\<close>\<close>

definition invalidate ::
  "(string \<Rightarrow> string \<Rightarrow> bool) \<Rightarrow> redis \<Rightarrow> string \<Rightarrow> (exn + nat) \<times> redis" where
  "invalidate matches r pattern =
     (case invalidate_try matches r pattern of
        (Inl e, r') \<Rightarrow> (Inr 0, r')
      | (Inr n, r') \<Rightarrow> (Inr n, r'))"

section \<open>Serving: \<^verbatim>\<open>get_online_features\<close>\<close>

record settings =
  cache_ttl_seconds :: nat
  log_level :: string

record online_request =
  entity_id :: string
  feature_names :: "string list"

text \<open>\<^verbatim>\<open>FeatureValue\<close> and \<^verbatim>\<open>OnlineFeatureResponse\<close> of the API models.\<close>

record feature_out =
  v_value :: json
  v_timestamp :: timestamp
  v_freshness_seconds :: "rat option"

record online_response =
  r_entity_id :: string
  r_features :: "(string \<times> feature_out) list"
  r_timestamp :: timestamp
  r_source :: string
  r_cache_hit :: bool

text \<open>
  The application state a request sees: the store, the cache (\<^verbatim>\<open>None\<close> when Redis
  could not be reached at startup), the settings, and the wall clock: \<open>clock k\<close> is the
  \<open>k\<close>-th reading of \<^verbatim>\<open>datetime.utcnow()\<close>, \<open>ticks\<close> the number of readings taken.
\<close>

record app_state =
  store :: postgres
  cache :: "redis option"
  app_settings :: settings
  clock :: "nat \<Rightarrow> timestamp"
  ticks :: nat

definition utcnow :: "app_state \<Rightarrow> timestamp \<times> app_state" where
  "utcnow app = (clock app (ticks app), app\<lparr>ticks := ticks app + 1\<rparr>)"

definition cache_key :: "string \<Rightarrow> string \<Rightarrow> string" where
  "cache_key eid f = eid @ '':'' @ f"

text \<open>
  The loop over the cached results: hits go to the response, misses are collected. The
  response model reads the cached timestamp as the instant it denotes.
\<close>

definition cached_step ::
  "(string \<times> feature_out) list \<times> string list \<times> bool
     \<Rightarrow> string \<times> string \<times> cache_entry option
     \<Rightarrow> (string \<times> feature_out) list \<times> string list \<times> bool" where
  "cached_step acc x =
     (case acc of (features, missing_features, cache_hit) \<Rightarrow>
        (case x of (feature_name, key, cached_value) \<Rightarrow>
           (case cached_value of
              Some v \<Rightarrow>
                (AList.update feature_name
                   \<lparr>v_value = c_value v, v_timestamp = instant (c_timestamp v),
                    v_freshness_seconds = c_freshness_seconds v\<rparr> features,
                 missing_features, cache_hit)
            | None \<Rightarrow> (features, missing_features @ [feature_name], False))))"

definition process_cached ::
  "string list \<Rightarrow> string list \<Rightarrow> cache_entry option list
     \<Rightarrow> (string \<times> feature_out) list \<times> string list \<times> bool" where
  "process_cached names cache_keys cached =
     foldl cached_step ([], [], True) (zip names (zip cache_keys cached))"

text \<open>
  The loop over the rows the store returned: each takes its own clock reading, goes to
  the response and is prepared for the cache. The record prepared for the cache carries
  the row's timestamp as the \<^verbatim>\<open>datetime\<close> the driver returned.
\<close>

definition age_seconds :: "timestamp \<Rightarrow> timestamp \<Rightarrow> rat" where
  "age_seconds now ts = of_int (now - ts) / 1000000"

definition db_step ::
  "string \<Rightarrow> ((string \<times> feature_out) list \<times> (string \<times> cache_entry) list) \<times> app_state
     \<Rightarrow> string \<times> fdata
     \<Rightarrow> ((string \<times> feature_out) list \<times> (string \<times> cache_entry) list) \<times> app_state" where
  "db_step eid acc x =
     (case acc of ((features, cache_data), app) \<Rightarrow>
        (case x of (feature_name, feature_data) \<Rightarrow>
           (let (now, app') = utcnow app;
                age = age_seconds now (d_timestamp feature_data)
            in ((AList.update feature_name
                   \<lparr>v_value = d_value feature_data, v_timestamp = d_timestamp feature_data,
                    v_freshness_seconds = Some age\<rparr> features,
                 AList.update (cache_key eid feature_name)
                   \<lparr>c_value = d_value feature_data,
                    c_timestamp = DateTime (d_timestamp feature_data),
                    c_freshness_seconds = Some age\<rparr> cache_data),
                app'))))"

definition process_db ::
  "string \<Rightarrow> (string \<times> feature_out) list \<Rightarrow> app_state \<Rightarrow> (string \<times> fdata) list
     \<Rightarrow> ((string \<times> feature_out) list \<times> (string \<times> cache_entry) list) \<times> app_state" where
  "process_db eid features app entity_features =
     foldl (db_step eid) ((features, []), app) entity_features"

definition make_response ::
  "online_request \<Rightarrow> (string \<times> feature_out) list \<Rightarrow> string list \<Rightarrow> bool \<Rightarrow> app_state
     \<Rightarrow> (exn + online_response) \<times> app_state" where
  "make_response request features missing_features cache_hit app =
     (let (now, app') = utcnow app
      in (Inr \<lparr>r_entity_id = entity_id request, r_features = features, r_timestamp = now,
               r_source = (if cache_hit \<and> missing_features = [] then ''cache'' else ''database''),
               r_cache_hit = cache_hit\<rparr>, app'))"

text \<open>
  The handler. \<open>Inl\<close> is an exception leaving it. The TTL handed to
  \<^verbatim>\<open>set_many\<close> is the literal of the source.
\<close>

definition get_online_features ::
  "app_state \<Rightarrow> online_request \<Rightarrow> (exn + online_response) \<times> app_state" where
  "get_online_features app request =
     (case cache app of
        None \<Rightarrow> (Inl AttributeError, app)
      | Some rd \<Rightarrow>
          let cache_keys = map (cache_key (entity_id request)) (feature_names request)
          in (case get_many rd cache_keys of
                (Inl e, rd1) \<Rightarrow> (Inl e, app\<lparr>cache := Some rd1\<rparr>)
              | (Inr cached, rd1) \<Rightarrow>
                  (case process_cached (feature_names request) cache_keys cached of
                     (features, missing_features, cache_hit) \<Rightarrow>
                       if missing_features \<noteq> [] then
                         (let (now, app1) = utcnow (app\<lparr>cache := Some rd1\<rparr>);
                              (db, pg1) = get_features (store app1) now [entity_id request]
                                            missing_features (Some now);
                              app2 = app1\<lparr>store := pg1\<rparr>
                          in (case db of
                                Inl e \<Rightarrow> (Inl e, app2)
                              | Inr db_results \<Rightarrow>
                                  let entity_features =
                                        (case map_of db_results (entity_id request) of
                                           None \<Rightarrow> [] | Some m \<Rightarrow> m)
                                  in (case process_db (entity_id request) features app2 entity_features of
                                        ((features', cache_data), app3) \<Rightarrow>
                                          if cache_data \<noteq> [] then
                                            (case set_many rd1 cache_data 3600 of
                                               (Inl e, rd2) \<Rightarrow> (Inl e, app3\<lparr>cache := Some rd2\<rparr>)
                                             | (Inr u, rd2) \<Rightarrow>
                                                 make_response request features' missing_features
                                                   cache_hit (app3\<lparr>cache := Some rd2\<rparr>))
                                          else make_response request features' missing_features
                                                 cache_hit app3)))
                       else make_response request features missing_features cache_hit
                              (app\<lparr>cache := Some rd1\<rparr>))))"

text \<open>
  The HTTP surface of the route: a response is sent with status 200; an exception
  reaches \<^verbatim>\<open>global_exception_handler\<close>, which answers 500 and shows the detail only
  at log level DEBUG.
\<close>

datatype http_response =
    Json200 online_response
  | JsonError nat string "string option"

definition exn_text :: "exn \<Rightarrow> string" where
  "exn_text e =
     (case e of PostgresError \<Rightarrow> ''PostgresError'' | DataError \<Rightarrow> ''DataError''
      | RedisError \<Rightarrow> ''RedisError'' | UnpackError \<Rightarrow> ''UnpackError''
      | TypeError \<Rightarrow> ''TypeError'' | OverflowError \<Rightarrow> ''OverflowError''
      | AttributeError \<Rightarrow> ''AttributeError'')"

definition global_exception_handler :: "settings \<Rightarrow> exn \<Rightarrow> http_response" where
  "global_exception_handler st e =
     JsonError 500 ''Internal server error''
       (if log_level st = ''DEBUG'' then Some (exn_text e) else None)"

definition post_features_online :: "app_state \<Rightarrow> online_request \<Rightarrow> http_response \<times> app_state" where
  "post_features_online app request =
     (case get_online_features app request of
        (Inl e, app') \<Rightarrow> (global_exception_handler (app_settings app') e, app')
      | (Inr resp, app') \<Rightarrow> (Json200 resp, app'))"

section \<open>Views of the state used in the statements\<close>

text \<open>The unique key of \<^verbatim>\<open>feature_values\<close>.\<close>

definition row_key :: "feature_value \<Rightarrow> int \<times> string \<times> timestamp" where
  "row_key r = (fv_feature_id r, fv_entity_id r, fv_timestamp r)"

text \<open>
  A batch row and the table row it is stored as: the same key, and the documents that
  the row's value and metadata texts denote.
\<close>

definition stored_form :: "feature_input \<Rightarrow> feature_value \<Rightarrow> bool" where
  "stored_form f r \<longleftrightarrow>
     fv_feature_id r = fi_feature_id f \<and> fv_entity_id r = fi_entity_id f \<and>
     fv_timestamp r = fi_timestamp f \<and> fi_value f = JsonText (fv_value r) \<and>
     fi_metadata f = Some (JsonText (fv_metadata r))"

text \<open>What the cache holds under a key, decoded; and the decoding of one reply.\<close>

definition cached_record :: "redis \<Rightarrow> string \<Rightarrow> cache_entry option" where
  "cached_record r k = (case redis_get r k of Some (Packed v) \<Rightarrow> Some v | _ \<Rightarrow> None)"

definition decoded :: "blob option \<Rightarrow> cache_entry option" where
  "decoded b = (case b of Some (Packed v) \<Rightarrow> Some v | _ \<Rightarrow> None)"

text \<open>
  The requested names whose cache reply was absent, and those whose reply was present,
  in request order.
\<close>

definition miss_names :: "string list \<Rightarrow> cache_entry option list \<Rightarrow> string list" where
  "miss_names names cached = map fst (filter (\<lambda>x. snd x = None) (zip names cached))"

definition hit_names :: "string list \<Rightarrow> cache_entry option list \<Rightarrow> string list" where
  "hit_names names cached = map fst (filter (\<lambda>x. snd x \<noteq> None) (zip names cached))"

text \<open>The rows the handler reads out of the store's answer for its entity.\<close>

definition entity_rows :: "postgres \<Rightarrow> string \<Rightarrow> string list \<Rightarrow> timestamp \<Rightarrow> (string \<times> fdata) list" where
  "entity_rows pg eid missing now =
     (case map_of (reshape (point_in_time_query pg [eid] missing now)) eid of
        None \<Rightarrow> [] | Some m \<Rightarrow> m)"

section \<open>Example states\<close>

definition pg_example :: postgres where
  "pg_example =
     \<lparr>pg_features = [\<lparr>f_id = 1, f_name = ''f1'', f_version = 1\<rparr>],
      pg_feature_values =
        [\<lparr>fv_feature_id = 1, fv_entity_id = ''u1'', fv_timestamp = 9, fv_value = JStr ''A'', fv_metadata = JNull\<rparr>,
         \<lparr>fv_feature_id = 1, fv_entity_id = ''u1'', fv_timestamp = 11, fv_value = JStr ''B'', fv_metadata = JNull\<rparr>],
      pg_faults = [], pg_statements = 0\<rparr>"

definition pg_faulty :: postgres where
  "pg_faulty = pg_example\<lparr>pg_faults := [True]\<rparr>"

definition batch_example :: "feature_input list" where
  "batch_example =
     [\<lparr>fi_feature_id = 1, fi_entity_id = ''u1'', fi_timestamp = 9,
       fi_value = JsonText (JStr ''A''), fi_metadata = Some (JsonText (JObj []))\<rparr>,
      \<lparr>fi_feature_id = 1, fi_entity_id = ''u1'', fi_timestamp = 9,
       fi_value = JsonText (JStr ''C''), fi_metadata = Some (JsonText (JObj []))\<rparr>,
      \<lparr>fi_feature_id = 1, fi_entity_id = ''u2'', fi_timestamp = 9,
       fi_value = JsonText (JStr ''D''), fi_metadata = Some (JsonText (JObj [(''src'', JStr ''t'')]))\<rparr>]"

text \<open>The same rows with the metadata key left out, and with values that are not text.\<close>

definition batch_no_metadata :: "feature_input list" where
  "batch_no_metadata =
     [\<lparr>fi_feature_id = 1, fi_entity_id = ''u1'', fi_timestamp = 9,
       fi_value = JsonText (JStr ''A''), fi_metadata = None\<rparr>]"

definition batch_objects :: "feature_input list" where
  "batch_objects =
     [\<lparr>fi_feature_id = 1, fi_entity_id = ''u1'', fi_timestamp = 9,
       fi_value = NonStr, fi_metadata = Some NonStr\<rparr>]"

text \<open>Glob matching for the patterns \<^verbatim>\<open>prefix*\<close> without further metacharacters.\<close>

definition prefix_star :: "string \<Rightarrow> string \<Rightarrow> bool" where
  "prefix_star p k \<longleftrightarrow> p \<noteq> [] \<and> last p = CHR ''*'' \<and> take (length p - 1) k = butlast p"

definition rd_example :: redis where
  "rd_example =
     \<lparr>rd_keys =
        [(''u42:user_age'',
          Packed \<lparr>c_value = JInt 30, c_timestamp = IsoString 100, c_freshness_seconds = Some 5\<rparr>, 3600)],
      rd_faults = []\<rparr>"

definition rd_down :: redis where
  "rd_down = rd_example\<lparr>rd_faults := [Refused, Refused]\<rparr>"

definition rd_del_lost :: redis where
  "rd_del_lost = rd_example\<lparr>rd_faults := [Delivered, ReplyLost]\<rparr>"

text \<open>
  A store with two features of entity \<^verbatim>\<open>u42\<close>, a cache holding one of them, and
  application states over them: the clock reads 15 s throughout, except in
  \<open>app_skew\<close>, where it steps back to 8 s after the first reading.
\<close>

definition pg_users :: postgres where
  "pg_users =
     \<lparr>pg_features = [\<lparr>f_id = 1, f_name = ''user_age'', f_version = 1\<rparr>,
                     \<lparr>f_id = 2, f_name = ''user_ltv'', f_version = 1\<rparr>],
      pg_feature_values =
        [\<lparr>fv_feature_id = 1, fv_entity_id = ''u42'', fv_timestamp = 10000000, fv_value = JInt 30, fv_metadata = JNull\<rparr>,
         \<lparr>fv_feature_id = 2, fv_entity_id = ''u42'', fv_timestamp = 9000000, fv_value = JInt 1500, fv_metadata = JNull\<rparr>],
      pg_faults = [], pg_statements = 0\<rparr>"

definition rd_warm :: redis where
  "rd_warm =
     \<lparr>rd_keys =
        [(''u42:user_age'',
          Packed \<lparr>c_value = JInt 30, c_timestamp = IsoString 10000000, c_freshness_seconds = Some 5\<rparr>, 3600)],
      rd_faults = []\<rparr>"

definition rd_empty :: redis where
  "rd_empty = \<lparr>rd_keys = [], rd_faults = []\<rparr>"

definition app_mixed :: app_state where
  "app_mixed =
     \<lparr>store = pg_users, cache = Some rd_warm,
      app_settings = \<lparr>cache_ttl_seconds = 3600, log_level = ''INFO''\<rparr>,
      clock = (\<lambda>k. 15000000), ticks = 0\<rparr>"

definition req_both :: online_request where
  "req_both = \<lparr>entity_id = ''u42'', feature_names = [''user_age'', ''user_ltv'']\<rparr>"

definition req_age :: online_request where
  "req_age = \<lparr>entity_id = ''u42'', feature_names = [''user_age'']\<rparr>"

definition app_skew :: app_state where
  "app_skew =
     \<lparr>store = pg_users, cache = Some rd_empty,
      app_settings = \<lparr>cache_ttl_seconds = 3600, log_level = ''INFO''\<rparr>,
      clock = (\<lambda>k. if k = 0 then 15000000 else 8000000), ticks = 0\<rparr>"

definition app_store_down :: app_state where
  "app_store_down = app_mixed\<lparr>store := pg_users\<lparr>pg_faults := [True]\<rparr>\<rparr>"

definition app_ttl60 :: app_state where
  "app_ttl60 =
     \<lparr>store = pg_users, cache = Some rd_empty,
      app_settings = \<lparr>cache_ttl_seconds = 60, log_level = ''INFO''\<rparr>,
      clock = (\<lambda>k. 15000000), ticks = 0\<rparr>"

definition req_three :: online_request where
  "req_three = \<lparr>entity_id = ''u42'', feature_names = [''user_age'', ''user_ltv'', ''user_zip'']\<rparr>"

definition entry_age :: cache_entry where
  "entry_age = \<lparr>c_value = JInt 30, c_timestamp = IsoString 10000000, c_freshness_seconds = Some 5\<rparr>"

definition resp_mixed :: online_response where
  "resp_mixed =
     \<lparr>r_entity_id = ''u42'',
      r_features =
        [(''user_age'', \<lparr>v_value = JInt 30, v_timestamp = 10000000, v_freshness_seconds = Some 5\<rparr>),
         (''user_ltv'', \<lparr>v_value = JInt 1500, v_timestamp = 9000000, v_freshness_seconds = Some 6\<rparr>)],
      r_timestamp = 15000000, r_source = ''database'', r_cache_hit = False\<rparr>"

definition resp_skew :: online_response where
  "resp_skew =
     \<lparr>r_entity_id = ''u42'',
      r_features =
        [(''user_age'', \<lparr>v_value = JInt 30, v_timestamp = 10000000, v_freshness_seconds = Some (- 2)\<rparr>)],
      r_timestamp = 8000000, r_source = ''database'', r_cache_hit = False\<rparr>"

section \<open>Point-in-time reads\<close>

lemma distinct_on_first:
  "map_of (map (\<lambda>r. (grp r, r)) (distinct_on xs)) g = List.find (\<lambda>r. grp r = g) xs"
  by (induction xs rule: distinct_on.induct) (auto simp: same_group_def grp_def)

lemma set_distinct_on: "set (distinct_on xs) \<subseteq> set xs"
  by (induction xs rule: distinct_on.induct) auto

lemma order_key_grp: "order_key a \<le> order_key b \<Longrightarrow> grp a \<le> grp b"
  by (auto simp: order_key_def grp_def less_eq_prod_def less_prod_def)

lemma order_key_ts: "order_key a \<le> order_key b \<Longrightarrow> grp a = grp b \<Longrightarrow> q_timestamp b \<le> q_timestamp a"
  by (auto simp: order_key_def grp_def less_eq_prod_def less_prod_def)

lemma distinct_distinct_on:
  "sorted (map order_key xs) \<Longrightarrow> distinct (map grp (distinct_on xs))"
proof (induction xs rule: distinct_on.induct)
  case (3 x y xs)
  show ?case
  proof (cases "same_group x y")
    case True
    with 3 show ?thesis by auto
  next
    case False
    have "grp x \<noteq> grp z" if "z \<in> set (y # xs)" for z
    proof
      assume eq: "grp x = grp z"
      from 3(3) that have "order_key x \<le> order_key y" "order_key y \<le> order_key z"
        by auto
      then have "grp x \<le> grp y" "grp y \<le> grp z" by (auto dest: order_key_grp)
      with eq have "grp x = grp y" by auto
      with False show False by (simp add: same_group_def grp_def)
    qed
    then have "grp x \<notin> grp ` set (distinct_on (y # xs))"
      using set_distinct_on[of "y # xs"] by blast
    with False 3 show ?thesis by auto
  qed
qed auto

lemma find_sorted_max:
  "sorted (map order_key xs) \<Longrightarrow> List.find (\<lambda>r. grp r = g) xs = Some r \<Longrightarrow> r' \<in> set xs \<Longrightarrow> grp r' = g
     \<Longrightarrow> q_timestamp r' \<le> q_timestamp r"
  by (induction xs) (auto split: if_splits dest: order_key_ts)

lemma slot_reshape_step:
  "slot (reshape_step acc r) e n = (if grp r = (e, n) then Some (row_data r) else slot acc e n)"
  by (auto simp: slot_def reshape_step_def grp_def Let_def update_conv' split: option.splits)

lemma slot_foldl_reshape_step:
  "distinct (map grp rows) \<Longrightarrow>
   slot (foldl reshape_step acc rows) e n =
     (case map_of (map (\<lambda>r. (grp r, r)) rows) (e, n) of
        Some r \<Rightarrow> Some (row_data r) | None \<Rightarrow> slot acc e n)"
proof (induction rows arbitrary: acc)
  case Nil
  show ?case by simp
next
  case (Cons r rows)
  show ?case
  proof (cases "grp r = (e, n)")
    case True
    with Cons.prems have "(e, n) \<notin> grp ` set rows" by auto
    then have "map_of (map (\<lambda>r. (grp r, r)) rows) (e, n) = None"
      by (simp add: map_of_eq_None_iff image_image)
    with Cons True show ?thesis by (simp add: slot_reshape_step)
  next
    case False
    with Cons show ?thesis by (simp add: slot_reshape_step split: option.splits)
  qed
qed

lemma selected_rows_iff:
  "r \<in> set (filter (where_clause es fs t) (join_rows pg)) \<and> grp r = (e, n) \<longleftrightarrow>
     e \<in> set es \<and> n \<in> set fs \<and>
     (\<exists>fv \<in> stored_rows pg e n t.
        r = \<lparr>q_entity_id = e, q_feature_name = n, q_value = fv_value fv,
             q_timestamp = fv_timestamp fv, q_metadata = fv_metadata fv\<rparr>)"
  unfolding join_rows_def where_clause_def stored_rows_def grp_def
  by (rule iffI; clarsimp; blast)

lemma slot_Nil: "slot [] e n = None"
  by (simp add: slot_def)

lemma slot_query:
  "slot (reshape (point_in_time_query pg es fs t)) e n =
     map_option row_data
       (List.find (\<lambda>r. grp r = (e, n)) (sort_key order_key (filter (where_clause es fs t) (join_rows pg))))"
  unfolding reshape_def point_in_time_query_def
  by (simp add: slot_foldl_reshape_step distinct_distinct_on distinct_on_first slot_Nil
      split: option.splits)


lemma find_set: "List.find P xs = Some r \<Longrightarrow> r \<in> set xs \<and> P r"
  by (induction xs) (auto split: if_splits)

lemma point_in_time_slot:
  fixes pg es fs t e n
  defines "res \<equiv> reshape (point_in_time_query pg es fs t)"
  shows "(slot res e n = None \<longleftrightarrow> e \<notin> set es \<or> n \<notin> set fs \<or> stored_rows pg e n t = {}) \<and>
         (\<forall>d. slot res e n = Some d \<longrightarrow>
            d_timestamp d \<le> t \<and>
            (\<exists>fv \<in> stored_rows pg e n t. d = stored_data fv \<and>
               (\<forall>fv' \<in> stored_rows pg e n t. fv_timestamp fv' \<le> fv_timestamp fv)))"
proof -
  define L where "L = filter (where_clause es fs t) (join_rows pg)"
  define S where "S = sort_key order_key L"
  have slot_eq: "slot res e n = map_option row_data (List.find (\<lambda>r. grp r = (e, n)) S)"
    unfolding res_def S_def L_def by (rule slot_query)
  have sel: "r \<in> set S \<and> grp r = (e, n) \<longleftrightarrow>
      e \<in> set es \<and> n \<in> set fs \<and>
      (\<exists>fv \<in> stored_rows pg e n t.
         r = \<lparr>q_entity_id = e, q_feature_name = n, q_value = fv_value fv,
              q_timestamp = fv_timestamp fv, q_metadata = fv_metadata fv\<rparr>)" for r
    unfolding S_def L_def set_sort by (rule selected_rows_iff)
  have none: "slot res e n = None \<longleftrightarrow> e \<notin> set es \<or> n \<notin> set fs \<or> stored_rows pg e n t = {}"
  proof -
    have "slot res e n = None \<longleftrightarrow> \<not> (\<exists>r. r \<in> set S \<and> grp r = (e, n))"
      by (simp add: slot_eq find_None_iff)
    also have "\<dots> \<longleftrightarrow> e \<notin> set es \<or> n \<notin> set fs \<or> stored_rows pg e n t = {}"
      unfolding sel by auto
    finally show ?thesis .
  qed
  have some: "d_timestamp d \<le> t \<and>
            (\<exists>fv \<in> stored_rows pg e n t. d = stored_data fv \<and>
               (\<forall>fv' \<in> stored_rows pg e n t. fv_timestamp fv' \<le> fv_timestamp fv))"
    if d: "slot res e n = Some d" for d
  proof -
    from d obtain r where f: "List.find (\<lambda>r. grp r = (e, n)) S = Some r" and dr: "d = row_data r"
      by (auto simp: slot_eq)
    from f have rS: "r \<in> set S \<and> grp r = (e, n)" by (rule find_set)
    then obtain fv where req: "e \<in> set es" "n \<in> set fs" and fv: "fv \<in> stored_rows pg e n t"
      and r: "r = \<lparr>q_entity_id = e, q_feature_name = n, q_value = fv_value fv,
              q_timestamp = fv_timestamp fv, q_metadata = fv_metadata fv\<rparr>"
      unfolding sel by blast
    have d_eq: "d = stored_data fv" by (simp add: dr r row_data_def stored_data_def)
    have le_t: "d_timestamp d \<le> t" using fv by (simp add: d_eq stored_data_def stored_rows_def)
    have mx: "fv_timestamp fv' \<le> fv_timestamp fv" if fv': "fv' \<in> stored_rows pg e n t" for fv'
    proof -
      let ?r' = "\<lparr>q_entity_id = e, q_feature_name = n, q_value = fv_value fv',
              q_timestamp = fv_timestamp fv', q_metadata = fv_metadata fv'\<rparr>"
      from req fv' have "?r' \<in> set S \<and> grp ?r' = (e, n)" unfolding sel by blast
      then have "q_timestamp ?r' \<le> q_timestamp r"
        using find_sorted_max[OF _ f, of ?r'] by (simp add: S_def)
      then show ?thesis by (simp add: r)
    qed
    from d_eq le_t fv mx show ?thesis by blast
  qed
  from none some show ?thesis by blast
qed

text \<open>
  Claim C1. A call of \<^verbatim>\<open>get_features\<close> with an as-of timestamp \<open>t\<close> whose round trip
  does not fail returns a result in which, for every entity \<open>e\<close> and feature name \<open>n\<close>:
  the slot is absent exactly when \<open>e\<close> or \<open>n\<close> was not requested or the store holds no row
  of that pair with timestamp at most \<open>t\<close>; and a present slot shows a stored row of that
  pair with timestamp at most \<open>t\<close> that no other such row exceeds in timestamp.
\<close>

theorem get_features_point_in_time:
  assumes "\<not> fst (pg_roundtrip pg)"
  shows "\<exists>res. fst (get_features pg now es fs (Some t)) = Inr res \<and>
     (\<forall>e n.
        (slot res e n = None \<longleftrightarrow> e \<notin> set es \<or> n \<notin> set fs \<or> stored_rows pg e n t = {}) \<and>
        (\<forall>d. slot res e n = Some d \<longrightarrow>
            d_timestamp d \<le> t \<and>
            (\<exists>fv \<in> stored_rows pg e n t. d = stored_data fv \<and>
               (\<forall>fv' \<in> stored_rows pg e n t. fv_timestamp fv' \<le> fv_timestamp fv))))"
proof -
  have "fst (get_features pg now es fs (Some t)) = Inr (reshape (point_in_time_query pg es fs t))"
    using assms by (cases "pg_roundtrip pg") (simp add: get_features_def)
  then show ?thesis using point_in_time_slot by blast
qed


theorem get_features_point_in_time_witness:
  "\<not> fst (pg_roundtrip pg_example) \<and>
   (\<exists>res. fst (get_features pg_example 0 [''u1''] [''f1''] (Some 10)) = Inr res \<and>
     (\<forall>e n.
        (slot res e n = None \<longleftrightarrow>
           e \<notin> set [''u1''] \<or> n \<notin> set [''f1''] \<or> stored_rows pg_example e n 10 = {}) \<and>
        (\<forall>d. slot res e n = Some d \<longrightarrow>
            d_timestamp d \<le> 10 \<and>
            (\<exists>fv \<in> stored_rows pg_example e n 10. d = stored_data fv \<and>
               (\<forall>fv' \<in> stored_rows pg_example e n 10. fv_timestamp fv' \<le> fv_timestamp fv)))))"
proof -
  have h: "\<not> fst (pg_roundtrip pg_example)"
    by (simp add: pg_example_def pg_roundtrip_def)
  from h get_features_point_in_time [OF h, of 0 "[''u1'']" "[''f1'']" 10] show ?thesis
    by blast
qed

text \<open>The point-in-time batch scenario of the specification, evaluated.\<close>

lemma point_in_time_scenario_before:
  "fst (get_features pg_example 0 [''u1''] [''f1''] (Some 10)) =
     Inr [(''u1'', [(''f1'', \<lparr>d_value = JStr ''A'', d_timestamp = 9, d_metadata = JObj []\<rparr>)])]"
  by code_simp

lemma point_in_time_scenario_at:
  "fst (get_features pg_example 0 [''u1''] [''f1''] (Some 11)) =
     Inr [(''u1'', [(''f1'', \<lparr>d_value = JStr ''B'', d_timestamp = 11, d_metadata = JObj []\<rparr>)])]"
  by code_simp

section \<open>The write path\<close>

lemma insert_args_iff: "insert_args f = Inr r \<longleftrightarrow> stored_form f r"
  by (cases r)
     (auto simp: insert_args_def jsonb_arg_def stored_form_def
           split: pyarg.splits option.splits sum.splits)

lemma bind_all_iff: "bind_all fs = Inr rs \<longleftrightarrow> list_all2 stored_form fs rs"
proof (induction fs arbitrary: rs)
  case Nil
  show ?case by auto
next
  case (Cons f fs)
  show ?case
  proof
    assume "bind_all (f # fs) = Inr rs"
    then obtain r rs' where "insert_args f = Inr r" "bind_all fs = Inr rs'" "rs = r # rs'"
      by (auto split: sum.splits)
    then show "list_all2 stored_form (f # fs) rs"
      using Cons.IH [of rs'] insert_args_iff [of f r] by simp
  next
    assume "list_all2 stored_form (f # fs) rs"
    then obtain r rs' where rs: "rs = r # rs'" and 1: "stored_form f r"
      and 2: "list_all2 stored_form fs rs'"
      by (auto simp: list_all2_Cons1)
    from 1 have "insert_args f = Inr r" by (simp add: insert_args_iff)
    moreover from 2 have "bind_all fs = Inr rs'" by (simp add: Cons.IH)
    ultimately show "bind_all (f # fs) = Inr rs" by (simp add: rs)
  qed
qed

lemma bind_all_error: "bind_all fs = Inl e \<Longrightarrow> e = DataError"
  by (induction fs)
     (auto simp: insert_args_def jsonb_arg_def split: sum.splits pyarg.splits option.splits)

lemma conflict_iff: "conflict x r \<longleftrightarrow> row_key x = row_key r"
  by (auto simp: conflict_def row_key_def)

lemma row_key_overwrite [simp]:
  "row_key (x\<lparr>fv_value := v, fv_metadata := m\<rparr>) = row_key x"
  by (simp add: row_key_def)

lemma overwrite_same_key:
  "row_key x = row_key r \<Longrightarrow> x\<lparr>fv_value := fv_value r, fv_metadata := fv_metadata r\<rparr> = r"
  by (cases x, cases r) (simp add: row_key_def)

lemma keys_upsert: "row_key ` set (upsert r t) = insert (row_key r) (row_key ` set t)"
  by (induction t) (auto simp: conflict_iff)

lemma keys_executemany: "row_key ` set (executemany t b) = row_key ` set t \<union> row_key ` set b"
  unfolding executemany_def
  by (induction b arbitrary: t) (auto simp: keys_upsert)

lemma upsert_absorb:
  "row_key r = row_key r' \<Longrightarrow> upsert r (upsert r' t) = upsert r t"
  by (induction t) (auto simp: conflict_iff overwrite_same_key)

lemma upsert_commute:
  "row_key r \<noteq> row_key r' \<Longrightarrow> row_key r \<in> row_key ` set t \<Longrightarrow>
   upsert r (upsert r' t) = upsert r' (upsert r t)"
  by (induction t) (auto simp: conflict_iff)

lemma executemany_Cons: "executemany t (r # b) = executemany (upsert r t) b"
  by (simp add: executemany_def)

lemma executemany_overwritten:
  "row_key r \<in> row_key ` set b \<Longrightarrow> row_key r \<in> row_key ` set t \<Longrightarrow>
   executemany (upsert r t) b = executemany t b"
proof (induction b arbitrary: t)
  case Nil
  then show ?case by simp
next
  case (Cons x b)
  show ?case
  proof (cases "row_key x = row_key r")
    case True
    then show ?thesis by (simp add: executemany_Cons upsert_absorb)
  next
    case False
    with Cons.prems have in_b: "row_key r \<in> row_key ` set b" by auto
    have in_t: "row_key r \<in> row_key ` set (upsert x t)"
      using Cons.prems(2) by (simp add: keys_upsert)
    have "executemany (upsert r t) (x # b) = executemany (upsert x (upsert r t)) b"
      by (simp add: executemany_Cons)
    also have "\<dots> = executemany (upsert r (upsert x t)) b"
      using upsert_commute [of r x t] False Cons.prems(2) by simp
    also have "\<dots> = executemany (upsert x t) b"
      using in_b in_t by (rule Cons.IH)
    finally show ?thesis by (simp add: executemany_Cons)
  qed
qed

lemma upsert_noop:
  "List.find (\<lambda>x. row_key x = row_key r) t = Some y \<Longrightarrow> fv_value y = fv_value r \<Longrightarrow>
   fv_metadata y = fv_metadata r \<Longrightarrow> upsert r t = t"
  by (induction t) (auto simp: conflict_iff split: if_splits)

lemma find_upsert_other:
  "row_key x \<noteq> k \<Longrightarrow>
   List.find (\<lambda>y. row_key y = k) (upsert x t) = List.find (\<lambda>y. row_key y = k) t"
  by (induction t) (auto simp: conflict_iff)

lemma find_upsert_same:
  "\<exists>y. List.find (\<lambda>y. row_key y = row_key r) (upsert r t) = Some y \<and>
       fv_value y = fv_value r \<and> fv_metadata y = fv_metadata r"
  by (induction t) (auto simp: conflict_iff)

lemma find_executemany_other:
  "k \<notin> row_key ` set b \<Longrightarrow>
   List.find (\<lambda>y. row_key y = k) (executemany t b) = List.find (\<lambda>y. row_key y = k) t"
  by (induction b arbitrary: t) (auto simp: executemany_Cons find_upsert_other executemany_def)

lemma executemany_idempotent: "executemany (executemany t b) b = executemany t b"
proof (induction b arbitrary: t)
  case Nil
  show ?case by (simp add: executemany_def)
next
  case (Cons r b)
  define S where "S = executemany (upsert r t) b"
  have IH: "executemany S b = S" unfolding S_def by (rule Cons.IH)
  have in_S: "row_key r \<in> row_key ` set S"
    unfolding S_def by (simp add: keys_executemany keys_upsert)
  have "executemany (upsert r S) b = S"
  proof (cases "row_key r \<in> row_key ` set b")
    case True
    then have "executemany (upsert r S) b = executemany S b"
      using in_S by (rule executemany_overwritten)
    with IH show ?thesis by simp
  next
    case False
    obtain y where y: "List.find (\<lambda>y. row_key y = row_key r) (upsert r t) = Some y"
      "fv_value y = fv_value r" "fv_metadata y = fv_metadata r"
      using find_upsert_same by blast
    from False have "List.find (\<lambda>y. row_key y = row_key r) S = Some y"
      unfolding S_def by (simp add: find_executemany_other y(1))
    then have "upsert r S = S" using y(2,3) by (rule upsert_noop)
    with IH show ?thesis by simp
  qed
  then show ?case by (simp add: executemany_Cons S_def)
qed

lemma distinct_upsert: "distinct (map row_key t) \<Longrightarrow> distinct (map row_key (upsert r t))"
  by (induction t) (auto simp: conflict_iff keys_upsert)

lemma distinct_executemany:
  "distinct (map row_key t) \<Longrightarrow> distinct (map row_key (executemany t b))"
  by (induction b arbitrary: t) (auto simp: executemany_Cons distinct_upsert executemany_def)


lemma upsert_conflict_overwrites:
  "row_key r \<in> row_key ` set t \<Longrightarrow>
   map row_key (upsert r t) = map row_key t \<and>
   (\<exists>y. List.find (\<lambda>y. row_key y = row_key r) (upsert r t) = Some y \<and>
        fv_value y = fv_value r \<and> fv_metadata y = fv_metadata r)"
  by (induction t) (auto simp: conflict_iff)


lemma find_upsert:
  "List.find (\<lambda>y. row_key y = k) (upsert r t) =
     (if row_key r = k then Some r else List.find (\<lambda>y. row_key y = k) t)"
  by (induction t) (auto simp: conflict_iff overwrite_same_key)

lemma find_snoc:
  "List.find P (xs @ [x]) =
     (case List.find P xs of Some y \<Rightarrow> Some y | None \<Rightarrow> if P x then Some x else None)"
  by (induction xs) auto

lemma find_executemany:
  "List.find (\<lambda>y. row_key y = k) (executemany t args) =
     (case List.find (\<lambda>r. row_key r = k) (rev args) of
        Some r \<Rightarrow> Some r
      | None \<Rightarrow> List.find (\<lambda>y. row_key y = k) t)"
proof (induction args arbitrary: t)
  case Nil
  show ?case by (simp add: executemany_def)
next
  case (Cons a args)
  show ?case
    unfolding executemany_Cons Cons.IH
    by (simp add: find_snoc find_upsert split: option.splits)
qed

lemma write_features_success_iff:
  "fst (write_features pg batch) = Inr () \<longleftrightarrow>
     batch = [] \<or> (\<not> fst (pg_roundtrip pg) \<and> (\<exists>args. list_all2 stored_form batch args))"
proof (cases "batch = []")
  case True
  then show ?thesis by (simp add: write_features_def)
next
  case False
  obtain f pg' where rt: "pg_roundtrip pg = (f, pg')" by (cases "pg_roundtrip pg")
  show ?thesis
  proof (cases "bind_all batch")
    case (Inl e)
    then have "\<not> (\<exists>args. list_all2 stored_form batch args)"
      by (simp add: bind_all_iff [symmetric])
    with Inl False rt show ?thesis by (simp add: write_features_def)
  next
    case (Inr args)
    then have "\<exists>args. list_all2 stored_form batch args"
      by (auto simp: bind_all_iff)
    with Inr False rt show ?thesis by (simp add: write_features_def)
  qed
qed

lemma write_features_table:
  assumes "fst (write_features pg batch) = Inr ()"
  shows "\<exists>args. list_all2 stored_form batch args \<and>
     pg_feature_values (snd (write_features pg batch)) = executemany (pg_feature_values pg) args \<and>
     pg_features (snd (write_features pg batch)) = pg_features pg"
proof (cases "batch = []")
  case True
  then show ?thesis by (simp add: write_features_def executemany_def)
next
  case False
  obtain f pg' where rt: "pg_roundtrip pg = (f, pg')" by (cases "pg_roundtrip pg")
  have pg': "pg_features pg' = pg_features pg" "pg_feature_values pg' = pg_feature_values pg"
    using rt by (cases "pg_faults pg"; auto simp: pg_roundtrip_def)+
  from assms False rt obtain args where b: "bind_all batch = Inr args" and nf: "\<not> f"
    by (cases "bind_all batch"; cases f) (auto simp: write_features_def)
  from b have "list_all2 stored_form batch args" by (simp add: bind_all_iff)
  with False rt b nf pg' show ?thesis
    by (intro exI [of _ args]) (simp add: write_features_def)
qed

lemma write_features_table_cases:
  "pg_feature_values (snd (write_features pg batch)) = pg_feature_values pg \<or>
   (\<exists>args. list_all2 stored_form batch args \<and>
      pg_feature_values (snd (write_features pg batch)) = executemany (pg_feature_values pg) args)"
proof (cases "fst (write_features pg batch) = Inr ()")
  case True
  from write_features_table [OF True] show ?thesis by blast
next
  case False
  obtain f pg' where rt: "pg_roundtrip pg = (f, pg')" by (cases "pg_roundtrip pg")
  have pg': "pg_feature_values pg' = pg_feature_values pg"
    using rt by (cases "pg_faults pg") (auto simp: pg_roundtrip_def)
  from False rt pg' have "pg_feature_values (snd (write_features pg batch)) = pg_feature_values pg"
    by (cases "bind_all batch"; cases f) (auto simp: write_features_def split: if_splits)
  then show ?thesis by simp
qed

lemma write_features_keeps_features:
  "pg_features (snd (write_features pg batch)) = pg_features pg"
proof -
  obtain f pg' where rt: "pg_roundtrip pg = (f, pg')" by (cases "pg_roundtrip pg")
  have pg': "pg_features pg' = pg_features pg"
    using rt by (cases "pg_faults pg") (auto simp: pg_roundtrip_def)
  from rt pg' show ?thesis
    by (cases "bind_all batch"; cases f) (auto simp: write_features_def split: if_splits)
qed

lemma stored_form_unique: "stored_form f a \<Longrightarrow> stored_form f b \<Longrightarrow> a = b"
  by (cases a, cases b) (simp add: stored_form_def)

lemma list_all2_stored_form_unique:
  "list_all2 stored_form fs as \<Longrightarrow> list_all2 stored_form fs bs \<Longrightarrow> as = bs"
proof (induction fs arbitrary: as bs)
  case Nil
  then show ?case by simp
next
  case (Cons f fs)
  then show ?case
    by (auto simp: list_all2_Cons1 dest: stored_form_unique)
qed

text \<open>
  Claim C6. \<^verbatim>\<open>write_features(batch)\<close> succeeds exactly when the batch is empty or
  the round trip does not fail and every row binds (value and metadata are JSON text).
  When it has succeeded: for every key (feature_id, entity_id, timestamp) the first row
  of the table under that key is the last row of the batch with that key, value and
  metadata included, or the row that was there before when the batch has no row with
  that key; the keys of the table are the old keys and the keys of the batch; a second
  \<^verbatim>\<open>write_features(batch)\<close> leaves the table \<^verbatim>\<open>feature_values\<close> (and the table
  \<^verbatim>\<open>features\<close>) as the first application left them, whether the second round trip
  succeeds or fails; and a table with one row per key still has one row per key.
\<close>

theorem write_features_idempotent:
  "(fst (write_features pg batch) = Inr () \<longleftrightarrow>
      batch = [] \<or> (\<not> fst (pg_roundtrip pg) \<and> (\<exists>args. list_all2 stored_form batch args))) \<and>
   (fst (write_features pg batch) = Inr () \<longrightarrow>
      (\<exists>args. list_all2 stored_form batch args \<and>
         (\<forall>k. List.find (\<lambda>y. row_key y = k) (pg_feature_values (snd (write_features pg batch))) =
            (case List.find (\<lambda>r. row_key r = k) (rev args) of
               Some r \<Rightarrow> Some r
             | None \<Rightarrow> List.find (\<lambda>y. row_key y = k) (pg_feature_values pg))) \<and>
         row_key ` set (pg_feature_values (snd (write_features pg batch))) =
           row_key ` set (pg_feature_values pg) \<union> row_key ` set args) \<and>
      pg_feature_values (snd (write_features (snd (write_features pg batch)) batch)) =
        pg_feature_values (snd (write_features pg batch)) \<and>
      pg_features (snd (write_features (snd (write_features pg batch)) batch)) =
        pg_features (snd (write_features pg batch)) \<and>
      (distinct (map row_key (pg_feature_values pg)) \<longrightarrow>
         distinct (map row_key (pg_feature_values (snd (write_features pg batch))))))"
proof (intro conjI impI)
  show "fst (write_features pg batch) = Inr () \<longleftrightarrow>
      batch = [] \<or> (\<not> fst (pg_roundtrip pg) \<and> (\<exists>args. list_all2 stored_form batch args))"
    by (rule write_features_success_iff)
next
  assume ok: "fst (write_features pg batch) = Inr ()"
  define pg1 where "pg1 = snd (write_features pg batch)"
  from write_features_table [OF ok] obtain args where
    a: "list_all2 stored_form batch args" and
    t1: "pg_feature_values pg1 = executemany (pg_feature_values pg) args"
    unfolding pg1_def by blast
  show "\<exists>args. list_all2 stored_form batch args \<and>
         (\<forall>k. List.find (\<lambda>y. row_key y = k) (pg_feature_values (snd (write_features pg batch))) =
            (case List.find (\<lambda>r. row_key r = k) (rev args) of
               Some r \<Rightarrow> Some r
             | None \<Rightarrow> List.find (\<lambda>y. row_key y = k) (pg_feature_values pg))) \<and>
         row_key ` set (pg_feature_values (snd (write_features pg batch))) =
           row_key ` set (pg_feature_values pg) \<union> row_key ` set args"
    using a t1 unfolding pg1_def
    by (intro exI [of _ args]) (simp add: find_executemany keys_executemany)
  have "pg_feature_values (snd (write_features pg1 batch)) = pg_feature_values pg1"
    using write_features_table_cases [of pg1 batch] a
    by (auto simp: t1 executemany_idempotent dest: list_all2_stored_form_unique)
  then show "pg_feature_values (snd (write_features (snd (write_features pg batch)) batch)) =
        pg_feature_values (snd (write_features pg batch))"
    unfolding pg1_def .
  show "pg_features (snd (write_features (snd (write_features pg batch)) batch)) =
        pg_features (snd (write_features pg batch))"
    by (rule write_features_keeps_features)
  assume "distinct (map row_key (pg_feature_values pg))"
  then show "distinct (map row_key (pg_feature_values (snd (write_features pg batch))))"
    using t1 unfolding pg1_def by (simp add: distinct_executemany)
qed


text \<open>The idempotent-write scenario: the table after writing the example batch.\<close>

lemma write_features_scenario:
  "fst (write_features pg_example batch_example) = Inr () \<and>
   pg_feature_values (snd (write_features pg_example batch_example)) =
     [\<lparr>fv_feature_id = 1, fv_entity_id = ''u1'', fv_timestamp = 9, fv_value = JStr ''C'', fv_metadata = JObj []\<rparr>,
      \<lparr>fv_feature_id = 1, fv_entity_id = ''u1'', fv_timestamp = 11, fv_value = JStr ''B'', fv_metadata = JNull\<rparr>,
      \<lparr>fv_feature_id = 1, fv_entity_id = ''u2'', fv_timestamp = 9, fv_value = JStr ''D'',
       fv_metadata = JObj [(''src'', JStr ''t'')]\<rparr>]"
  by code_simp

theorem write_features_idempotent_witness:
  "fst (write_features pg_example batch_example) = Inr () \<and>
   pg_feature_values (snd (write_features pg_example batch_example)) =
     [\<lparr>fv_feature_id = 1, fv_entity_id = ''u1'', fv_timestamp = 9, fv_value = JStr ''C'', fv_metadata = JObj []\<rparr>,
      \<lparr>fv_feature_id = 1, fv_entity_id = ''u1'', fv_timestamp = 11, fv_value = JStr ''B'', fv_metadata = JNull\<rparr>,
      \<lparr>fv_feature_id = 1, fv_entity_id = ''u2'', fv_timestamp = 9, fv_value = JStr ''D'',
       fv_metadata = JObj [(''src'', JStr ''t'')]\<rparr>] \<and>
   pg_feature_values (snd (write_features (snd (write_features pg_example batch_example)) batch_example)) =
     pg_feature_values (snd (write_features pg_example batch_example)) \<and>
   distinct (map row_key (pg_feature_values pg_example)) \<and>
   distinct (map row_key (pg_feature_values (snd (write_features pg_example batch_example))))"
proof -
  have h: "fst (write_features pg_example batch_example) = Inr ()"
    using write_features_scenario by simp
  have d: "distinct (map row_key (pg_feature_values pg_example))"
    by (simp add: pg_example_def row_key_def)
  from h d write_features_scenario write_features_idempotent [of pg_example batch_example]
  show ?thesis by blast
qed

text \<open>
  Rows that cannot be bound: with the metadata key left out the default is a dict, and
  the write raises; so it does for values that are not text.
\<close>

lemma write_features_unbound_rows:
  "fst (write_features pg_example batch_no_metadata) = Inl DataError \<and>
   pg_feature_values (snd (write_features pg_example batch_no_metadata)) = pg_feature_values pg_example \<and>
   fst (write_features pg_example batch_objects) = Inl DataError \<and>
   pg_feature_values (snd (write_features pg_example batch_objects)) = pg_feature_values pg_example"
  by code_simp

text \<open>
  Claim C10. \<^verbatim>\<open>write_features\<close> with the empty batch returns normally and leaves the
  whole server state as it was: no round trip is made (the fault schedule and the
  statement counter are untouched, so not even a scheduled fault is met) and no table
  changes.
\<close>

theorem write_features_empty_noop: "write_features pg [] = (Inr (), pg)"
  by (simp add: write_features_def)

theorem write_features_empty_noop_witness:
  "fst (pg_roundtrip pg_faulty) \<and> write_features pg_faulty [] = (Inr (), pg_faulty)"
  using write_features_empty_noop [of pg_faulty]
  by (simp add: pg_faulty_def pg_roundtrip_def pg_example_def)

section \<open>The cache tier\<close>

lemma decode_one_eq:
  "decode_one b = (if b = Some Malformed then Inl UnpackError else Inr (decoded b))"
  by (auto simp: decode_one_def decoded_def split: option.splits blob.splits)

lemma decode_all_eq:
  "decode_all bs = (if Some Malformed \<in> set bs then Inl UnpackError else Inr (map decoded bs))"
  by (induction bs) (auto simp: decode_one_eq)

lemma get_many_eq:
  "fst (get_many r keys) =
     Inr (if fst (redis_roundtrip r) \<or> (\<exists>k \<in> set keys. redis_get r k = Some Malformed)
          then replicate (length keys) None else map (cached_record r) keys)"
proof (cases "keys = []")
  case True
  then show ?thesis by (simp add: get_many_def)
next
  case False
  have m: "map decoded (map (redis_get r) keys) = map (cached_record r) keys"
    by (simp add: decoded_def cached_record_def)
  have mem: "Some Malformed \<in> set (map (redis_get r) keys) \<longleftrightarrow>
      (\<exists>k \<in> set keys. redis_get r k = Some Malformed)"
    by force
  obtain f r' where rt: "redis_roundtrip r = (f, r')" by (cases "redis_roundtrip r")
  show ?thesis using False rt m
    by (simp add: get_many_def get_many_try_def decode_all_eq mem del: set_map)
qed

text \<open>
  Claim C5. \<^verbatim>\<open>get_many\<close> never raises; its result has the length of the key list;
  position \<open>i\<close> is either absent or the record stored under key \<open>i\<close>; when the
  pipelined round trip fails every position is absent; and when it succeeds and no
  requested key holds undecodable bytes, position \<open>i\<close> is exactly what the cache holds
  under key \<open>i\<close>.
\<close>

theorem get_many_ordered_total:
  "\<exists>vs. fst (get_many r keys) = Inr vs \<and> length vs = length keys \<and>
     (\<forall>i < length keys. vs ! i = None \<or> vs ! i = cached_record r (keys ! i)) \<and>
     (fst (redis_roundtrip r) \<longrightarrow> vs = replicate (length keys) None) \<and>
     (\<not> fst (redis_roundtrip r) \<longrightarrow> (\<forall>k \<in> set keys. redis_get r k \<noteq> Some Malformed) \<longrightarrow>
        vs = map (cached_record r) keys)"
  unfolding get_many_eq by auto

lemma set_many_total: "fst (set_many r data ttl) = Inr ()"
  by (cases "redis_roundtrip r"; cases "pack_all data")
     (auto simp: set_many_def set_many_try_def Let_def)


theorem get_many_ordered_total_witness:
  "fst (redis_roundtrip rd_down) \<and>
   fst (get_many rd_down [''u42:user_age'', ''u42:user_ltv'']) = Inr [None, None] \<and>
   \<not> fst (redis_roundtrip rd_example) \<and>
   fst (get_many rd_example [''u42:user_age'', ''u42:user_ltv'']) =
     Inr [Some \<lparr>c_value = JInt 30, c_timestamp = IsoString 100, c_freshness_seconds = Some 5\<rparr>, None]"
proof -
  have d: "fst (redis_roundtrip rd_down)"
    by (simp add: rd_down_def redis_roundtrip_def)
  have u: "\<not> fst (redis_roundtrip rd_example)"
    by (simp add: rd_example_def redis_roundtrip_def)
  have ok: "\<forall>k \<in> set [''u42:user_age'', ''u42:user_ltv'']. redis_get rd_example k \<noteq> Some Malformed"
    by (simp add: rd_example_def redis_get_def)
  have m: "map (cached_record rd_example) [''u42:user_age'', ''u42:user_ltv''] =
      [Some \<lparr>c_value = JInt 30, c_timestamp = IsoString 100, c_freshness_seconds = Some 5\<rparr>, None]"
    by (simp add: rd_example_def redis_get_def cached_record_def)
  from d get_many_ordered_total [of rd_down "[''u42:user_age'', ''u42:user_ltv'']"]
  have 1: "fst (get_many rd_down [''u42:user_age'', ''u42:user_ltv'']) = Inr [None, None]"
    by (auto simp: numeral_2_eq_2)
  from u ok m get_many_ordered_total [of rd_example "[''u42:user_age'', ''u42:user_ltv'']"]
  have 2: "fst (get_many rd_example [''u42:user_age'', ''u42:user_ltv'']) =
     Inr [Some \<lparr>c_value = JInt 30, c_timestamp = IsoString 100, c_freshness_seconds = Some 5\<rparr>, None]"
    by auto
  from d u 1 2 show ?thesis by blast
qed

text \<open>
  Claim C3, as stated, fails: with the scan failing, \<^verbatim>\<open>invalidate\<close> does not raise
  but returns 0.
\<close>

theorem invalidate_surfaces_error_counterexample:
  "fst (invalidate_try prefix_star rd_down ''u42:*'') = Inl RedisError \<and>
   fst (invalidate prefix_star rd_down ''u42:*'') = Inr 0"
  by (simp add: invalidate_def invalidate_try_def rd_down_def redis_roundtrip_def)

text \<open>
  Claim C3, amended. No cache operation lets a failure escape: \<^verbatim>\<open>invalidate\<close> always
  returns a count, and the count is 0 whenever its scan or its delete fails;
  \<^verbatim>\<open>get_many\<close> always returns a list and \<^verbatim>\<open>set_many\<close> always returns normally.
\<close>

theorem cache_failures_never_propagate:
  "(\<exists>n. fst (invalidate m r p) = Inr n) \<and>
   (\<forall>e. fst (invalidate_try m r p) = Inl e \<longrightarrow> fst (invalidate m r p) = Inr 0) \<and>
   (\<exists>vs. fst (get_many r keys) = Inr vs) \<and>
   fst (set_many r data ttl) = Inr ()"
proof -
  have 1: "\<exists>n. fst (invalidate m r p) = Inr n"
    by (cases "invalidate_try m r p") (auto simp: invalidate_def split: sum.splits)
  have 2: "fst (invalidate m r p) = Inr 0" if "fst (invalidate_try m r p) = Inl e" for e
    using that by (cases "invalidate_try m r p") (auto simp: invalidate_def split: sum.splits)
  have 3: "\<exists>vs. fst (get_many r keys) = Inr vs"
    by (simp add: get_many_eq)
  have 4: "fst (set_many r data ttl) = Inr ()"
    by (rule set_many_total)
  from 1 2 3 4 show ?thesis by blast
qed

theorem cache_failures_never_propagate_witness:
  "fst (invalidate_try prefix_star rd_down ''u42:*'') = Inl RedisError \<and>
   fst (invalidate prefix_star rd_down ''u42:*'') = Inr 0 \<and>
   (\<exists>vs. fst (get_many rd_down [''u42:user_age'']) = Inr vs) \<and>
   fst (set_many rd_down [(''u42:user_age'', \<lparr>c_value = JInt 30, c_timestamp = IsoString 100, c_freshness_seconds = None\<rparr>)] 60) = Inr ()"
proof -
  have h: "fst (invalidate_try prefix_star rd_down ''u42:*'') = Inl RedisError"
    by (simp add: invalidate_try_def rd_down_def redis_roundtrip_def)
  from h cache_failures_never_propagate [of prefix_star rd_down "''u42:*''" "[''u42:user_age'']"
      "[(''u42:user_age'', \<lparr>c_value = JInt 30, c_timestamp = IsoString 100, c_freshness_seconds = None\<rparr>)]" 60]
  show ?thesis by blast
qed

text \<open>The invalidation scenario on a reachable cache: the matching key is deleted.\<close>

lemma invalidate_scenario:
  "invalidate prefix_star rd_example ''u42:*'' = (Inr 1, \<lparr>rd_keys = [], rd_faults = []\<rparr>)"
  by code_simp

text \<open>
  A delete whose reply is lost: \<^verbatim>\<open>invalidate\<close> returns 0 although the key is gone.
  A delete that never reaches the server leaves the key.
\<close>

lemma invalidate_lost_reply:
  "invalidate prefix_star rd_del_lost ''u42:*'' = (Inr 0, \<lparr>rd_keys = [], rd_faults = []\<rparr>) \<and>
   fst (invalidate prefix_star (rd_example\<lparr>rd_faults := [Delivered, Refused]\<rparr>) ''u42:*'') = Inr 0 \<and>
   rd_keys (snd (invalidate prefix_star (rd_example\<lparr>rd_faults := [Delivered, Refused]\<rparr>) ''u42:*'')) =
     rd_keys rd_example"
  by code_simp

text \<open>
  Records that carry their timestamp as a \<^verbatim>\<open>datetime\<close> cannot be serialized:
  \<^verbatim>\<open>set_many\<close> swallows the error before anything is sent, and the server is as it
  was. Records with the timestamp as text are written with the TTL handed over.
\<close>

lemma pack_all_datetime:
  "data \<noteq> [] \<Longrightarrow> (\<forall>e \<in> set data. \<exists>t. c_timestamp (snd e) = DateTime t) \<Longrightarrow>
   \<exists>x. pack_all data = Inl x"
  by (cases data) (auto simp: packb_def split: sum.splits)

lemma set_many_datetime:
  "(\<forall>e \<in> set data. \<exists>t. c_timestamp (snd e) = DateTime t) \<Longrightarrow> set_many r data ttl = (Inr (), r)"
proof (cases "data = []")
  case True
  then show ?thesis by (simp add: set_many_def)
next
  case False
  assume "\<forall>e \<in> set data. \<exists>t. c_timestamp (snd e) = DateTime t"
  with False obtain x where "pack_all data = Inl x" using pack_all_datetime by blast
  with False show ?thesis by (simp add: set_many_def set_many_try_def)
qed

lemma set_many_text_scenario:
  "set_many \<lparr>rd_keys = [], rd_faults = []\<rparr>
     [(''u42:user_age'', \<lparr>c_value = JInt 30, c_timestamp = IsoString 100, c_freshness_seconds = Some 0\<rparr>)] 60 =
   (Inr (), \<lparr>rd_keys = [(''u42:user_age'',
        Packed \<lparr>c_value = JInt 30, c_timestamp = IsoString 100, c_freshness_seconds = Some 0\<rparr>, 60)],
      rd_faults = []\<rparr>)"
  by code_simp

section \<open>Online serving\<close>

lemma foldl_cached_step:
  "length ns = length ks \<Longrightarrow> length ks = length cs \<Longrightarrow>
   \<exists>fs'. foldl cached_step (fs, ms, h) (zip ns (zip ks cs)) =
           (fs', ms @ miss_names ns cs, h \<and> None \<notin> set cs) \<and>
         fst ` set fs' = fst ` set fs \<union> set (hit_names ns cs)"
proof (induction ns ks cs arbitrary: fs ms h rule: list_induct3)
  case Nil
  show ?case by (simp add: miss_names_def hit_names_def)
next
  case (Cons n ns k ks c cs)
  show ?case
  proof (cases c)
    case None
    from Cons.IH [of fs "ms @ [n]" False]
    show ?thesis using None by (auto simp: cached_step_def miss_names_def hit_names_def)
  next
    case (Some v)
    let ?fs1 = "AList.update n \<lparr>v_value = c_value v, v_timestamp = instant (c_timestamp v),
                    v_freshness_seconds = c_freshness_seconds v\<rparr> fs"
    have d: "fst ` set ?fs1 = insert n (fst ` set fs)"
      by (simp add: dom_update)
    from Cons.IH [of ?fs1 ms h]
    show ?thesis using Some d by (auto simp: cached_step_def miss_names_def hit_names_def)
  qed
qed

lemma process_cached_eq:
  "length ks = length ns \<Longrightarrow> length cs = length ns \<Longrightarrow>
   \<exists>fs. process_cached ns ks cs = (fs, miss_names ns cs, None \<notin> set cs) \<and>
        fst ` set fs = set (hit_names ns cs)"
  using foldl_cached_step [of ns ks cs "[]" "[]" True]
  by (simp add: process_cached_def)

lemma miss_names_Nil_iff:
  "length cs = length ns \<Longrightarrow> miss_names ns cs = [] \<longleftrightarrow> None \<notin> set cs"
  by (induction ns cs rule: list_induct2') (auto simp: miss_names_def)

lemma miss_names_subset: "set (miss_names ns cs) \<subseteq> set ns"
  by (auto simp: miss_names_def dest: set_zip_leftD)

lemma hit_names_subset: "set (hit_names ns cs) \<subseteq> set ns"
  by (auto simp: hit_names_def dest: set_zip_leftD)

lemma get_many_length:
  "fst (get_many rd keys) = Inr cached \<Longrightarrow> length cached = length keys"
  by (auto simp: get_many_eq split: if_splits)

lemma db_step_frame:
  "db_step eid ((fs, cd), app) x = ((fs', cd'), app') \<Longrightarrow>
   ticks app' = ticks app + 1 \<and> clock app' = clock app \<and> store app' = store app \<and>
   cache app' = cache app \<and> app_settings app' = app_settings app"
  by (cases x) (auto simp: db_step_def utcnow_def Let_def)

lemma process_db_frame:
  "process_db eid fs app ef = ((fs', cd'), app') \<Longrightarrow>
   ticks app' = ticks app + length ef \<and> clock app' = clock app \<and> store app' = store app \<and>
   cache app' = cache app \<and> app_settings app' = app_settings app"
proof -
  have "foldl (db_step eid) ((fs0, cd0), app0) ef = ((fs', cd'), app') \<Longrightarrow>
   ticks app' = ticks app0 + length ef \<and> clock app' = clock app0 \<and> store app' = store app0 \<and>
   cache app' = cache app0 \<and> app_settings app' = app_settings app0" for fs0 cd0 app0
  proof (induction ef arbitrary: fs0 cd0 app0)
    case Nil
    then show ?case by simp
  next
    case (Cons x ef)
    obtain fs1 cd1 app1 where s: "db_step eid ((fs0, cd0), app0) x = ((fs1, cd1), app1)"
      by (metis surj_pair)
    from Cons.prems have "foldl (db_step eid) ((fs1, cd1), app1) ef = ((fs', cd'), app')"
      by (simp add: s)
    from Cons.IH [OF this] db_step_frame [OF s] show ?case by simp
  qed
  then show "process_db eid fs app ef = ((fs', cd'), app') \<Longrightarrow> ?thesis"
    by (simp add: process_db_def)
qed

lemma set_many_Nil: "set_many r [] ttl = (Inr (), r)"
  by (simp add: set_many_def)

lemma online_unfold:
  assumes c: "cache app = Some rd"
    and g: "fst (get_many rd (map (cache_key (entity_id req)) (feature_names req))) = Inr cached"
  shows "\<exists>fs. fst ` set fs = set (hit_names (feature_names req) cached) \<and>
      get_online_features app req =
       (if None \<notin> set cached
        then make_response req fs [] True
               (app\<lparr>cache := Some (snd (get_many rd (map (cache_key (entity_id req)) (feature_names req))))\<rparr>)
        else if fst (pg_roundtrip (store app))
        then (Inl PostgresError,
              app\<lparr>cache := Some (snd (get_many rd (map (cache_key (entity_id req)) (feature_names req)))),
                  ticks := ticks app + 1, store := snd (pg_roundtrip (store app))\<rparr>)
        else (case process_db (entity_id req) fs
                    (app\<lparr>cache := Some (snd (get_many rd (map (cache_key (entity_id req)) (feature_names req)))),
                        ticks := ticks app + 1, store := snd (pg_roundtrip (store app))\<rparr>)
                    (entity_rows (store app) (entity_id req)
                       (miss_names (feature_names req) cached) (clock app (ticks app))) of
                ((fs', cd), app3) \<Rightarrow>
                  make_response req fs' (miss_names (feature_names req) cached) False
                    (app3\<lparr>cache := Some (snd (set_many
                        (snd (get_many rd (map (cache_key (entity_id req)) (feature_names req))))
                        cd 3600))\<rparr>)))"
proof -
  let ?keys = "map (cache_key (entity_id req)) (feature_names req)"
  let ?names = "feature_names req"
  define rd1 where "rd1 = snd (get_many rd ?keys)"
  have gm: "get_many rd ?keys = (Inr cached, rd1)"
    using g by (simp add: rd1_def prod_eq_iff)
  have len: "length cached = length ?names"
    using get_many_length [OF g] by simp
  obtain fs where pc: "process_cached ?names ?keys cached = (fs, miss_names ?names cached, None \<notin> set cached)"
    and dom: "fst ` set fs = set (hit_names ?names cached)"
    using process_cached_eq [of ?keys ?names cached] len by auto
  have mn: "miss_names ?names cached = [] \<longleftrightarrow> None \<notin> set cached"
    using len by (rule miss_names_Nil_iff)
  show ?thesis
  proof (cases "None \<notin> set cached")
    case True
    then have "get_online_features app req = make_response req fs [] True (app\<lparr>cache := Some rd1\<rparr>)"
      using c gm pc mn by (simp add: get_online_features_def)
    with True dom show ?thesis unfolding rd1_def by (intro exI [of _ fs]) simp
  next
    case miss: False
    then have ne: "miss_names ?names cached \<noteq> []" using mn by simp
    obtain f pg1 where rt: "pg_roundtrip (store app) = (f, pg1)"
      by (cases "pg_roundtrip (store app)")
    show ?thesis
    proof (cases f)
      case True
      then have "get_online_features app req =
          (Inl PostgresError, app\<lparr>cache := Some rd1, ticks := ticks app + 1, store := pg1\<rparr>)"
        using c gm pc ne miss rt
        by (simp add: get_online_features_def utcnow_def get_features_def)
      with True miss rt dom show ?thesis unfolding rd1_def by (intro exI [of _ fs]) simp
    next
      case False
      let ?app2 = "app\<lparr>cache := Some rd1, ticks := ticks app + 1, store := pg1\<rparr>"
      let ?ef = "entity_rows (store app) (entity_id req) (miss_names ?names cached) (clock app (ticks app))"
      obtain fs' cd app3 where pd: "process_db (entity_id req) fs ?app2 ?ef = ((fs', cd), app3)"
        by (metis surj_pair)
      have c3: "cache app3 = Some rd1"
        using process_db_frame [OF pd] by simp
      obtain rd2 where sm: "set_many rd1 cd 3600 = (Inr (), rd2)"
        using set_many_total [of rd1 cd 3600] by (cases "set_many rd1 cd 3600") auto
      have same: "cd = [] \<Longrightarrow> app3\<lparr>cache := Some rd2\<rparr> = app3"
        using sm c3 by (simp add: set_many_Nil)
      have "get_online_features app req =
          make_response req fs' (miss_names ?names cached) False (app3\<lparr>cache := Some rd2\<rparr>)"
        using c gm pc ne miss rt False pd sm same
        by (simp add: get_online_features_def utcnow_def get_features_def entity_rows_def)
      with False miss rt dom pd sm show ?thesis unfolding rd1_def by (intro exI [of _ fs]) simp
    qed
  qed
qed

lemma db_step_eq:
  "db_step eid ((fs, cd), app) (n, fd) =
     ((AList.update n \<lparr>v_value = d_value fd, v_timestamp = d_timestamp fd,
          v_freshness_seconds = Some (age_seconds (clock app (ticks app)) (d_timestamp fd))\<rparr> fs,
       AList.update (cache_key eid n) \<lparr>c_value = d_value fd, c_timestamp = DateTime (d_timestamp fd),
          c_freshness_seconds = Some (age_seconds (clock app (ticks app)) (d_timestamp fd))\<rparr> cd),
      app\<lparr>ticks := ticks app + 1\<rparr>)"
  by (simp add: db_step_def utcnow_def Let_def)

lemma foldl_db_step_dom:
  "foldl (db_step eid) ((fs, cd), app) ef = ((fs', cd'), app') \<Longrightarrow>
   fst ` set fs' = fst ` set fs \<union> fst ` set ef"
proof (induction ef arbitrary: fs cd app)
  case Nil
  then show ?case by simp
next
  case (Cons x ef)
  obtain n fd where x: "x = (n, fd)" by (cases x)
  from Cons.prems Cons.IH show ?case
    unfolding x by (auto simp: db_step_eq dom_update)
qed

lemma foldl_db_step_prov:
  "foldl (db_step eid) ((fs, cd), app) ef = ((fs', cd'), app') \<Longrightarrow> map_of fs' n = Some fv \<Longrightarrow>
   map_of fs n = Some fv \<or>
   (\<exists>k fd. ticks app \<le> k \<and> (n, fd) \<in> set ef \<and>
      fv = \<lparr>v_value = d_value fd, v_timestamp = d_timestamp fd,
            v_freshness_seconds = Some (age_seconds (clock app k) (d_timestamp fd))\<rparr>)"
proof (induction ef arbitrary: fs cd app)
  case Nil
  then show ?case by simp
next
  case (Cons x ef)
  obtain n0 fd0 where x: "x = (n0, fd0)" by (cases x)
  let ?fv0 = "\<lparr>v_value = d_value fd0, v_timestamp = d_timestamp fd0,
          v_freshness_seconds = Some (age_seconds (clock app (ticks app)) (d_timestamp fd0))\<rparr>"
  let ?fs1 = "AList.update n0 ?fv0 fs"
  let ?cd1 = "AList.update (cache_key eid n0) \<lparr>c_value = d_value fd0, c_timestamp = DateTime (d_timestamp fd0),
          c_freshness_seconds = Some (age_seconds (clock app (ticks app)) (d_timestamp fd0))\<rparr> cd"
  let ?app1 = "app\<lparr>ticks := ticks app + 1\<rparr>"
  from Cons.prems(1) have f: "foldl (db_step eid) ((?fs1, ?cd1), ?app1) ef = ((fs', cd'), app')"
    unfolding x by (simp add: db_step_eq)
  from Cons.IH [OF f Cons.prems(2)]
  consider (old) "map_of ?fs1 n = Some fv"
    | (new) k fd where "ticks app + 1 \<le> k" "(n, fd) \<in> set ef"
        "fv = \<lparr>v_value = d_value fd, v_timestamp = d_timestamp fd,
            v_freshness_seconds = Some (age_seconds (clock app k) (d_timestamp fd))\<rparr>"
    by auto
  then show ?case
  proof cases
    case old
    show ?thesis
    proof (cases "n = n0")
      case True
      with old have "fv = ?fv0" by (simp add: update_conv')
      with True x show ?thesis
        by (intro disjI2 exI [of _ "ticks app"] exI [of _ fd0]) simp
    next
      case False
      with old show ?thesis by (simp add: update_conv')
    qed
  next
    case new
    then have "ticks app \<le> k" by simp
    with new show ?thesis by (intro disjI2 exI [of _ k] exI [of _ fd]) simp
  qed
qed

lemma reshape_step_distinct:
  "(\<And>e m. map_of acc e = Some m \<Longrightarrow> distinct (map fst m)) \<Longrightarrow>
   map_of (reshape_step acc r) e = Some m \<Longrightarrow> distinct (map fst m)"
  by (auto simp: reshape_step_def Let_def update_conv' distinct_update split: if_splits option.splits)

lemma foldl_reshape_distinct:
  "(\<And>e m. map_of acc e = Some m \<Longrightarrow> distinct (map fst m)) \<Longrightarrow>
   map_of (foldl reshape_step acc rows) e = Some m \<Longrightarrow> distinct (map fst m)"
proof (induction rows arbitrary: acc e m)
  case Nil
  then show ?case by simp
next
  case (Cons r rows)
  show ?case
  proof (rule Cons.IH [of "reshape_step acc r" e m])
    show "\<And>e m. map_of (reshape_step acc r) e = Some m \<Longrightarrow> distinct (map fst m)"
      using Cons.prems(1) by (rule reshape_step_distinct)
    show "map_of (foldl reshape_step (reshape_step acc r) rows) e = Some m"
      using Cons.prems(2) by simp
  qed
qed

lemma entity_rows_distinct: "distinct (map fst (entity_rows pg eid missing now))"
  using foldl_reshape_distinct [of "[]" "point_in_time_query pg [eid] missing now" eid]
  by (auto simp: entity_rows_def reshape_def split: option.splits)

lemma entity_rows_slot:
  "map_of (entity_rows pg eid missing now) n =
     slot (reshape (point_in_time_query pg [eid] missing now)) eid n"
  by (simp add: entity_rows_def slot_def split: option.splits)

lemma entity_rows_dom:
  "fst ` set (entity_rows pg eid missing now) =
     {n \<in> set missing. stored_rows pg eid n now \<noteq> {}}"
proof -
  have "n \<in> fst ` set (entity_rows pg eid missing now) \<longleftrightarrow>
        n \<in> set missing \<and> stored_rows pg eid n now \<noteq> {}" for n
  proof -
    have "n \<in> fst ` set (entity_rows pg eid missing now) \<longleftrightarrow>
          map_of (entity_rows pg eid missing now) n \<noteq> None"
      by (simp add: map_of_eq_None_iff)
    also have "\<dots> \<longleftrightarrow> n \<in> set missing \<and> stored_rows pg eid n now \<noteq> {}"
      using point_in_time_slot [of pg "[eid]" missing now eid n]
      by (simp add: entity_rows_slot)
    finally show ?thesis .
  qed
  then show ?thesis by blast
qed

lemma entity_rows_member:
  assumes "(n, fd) \<in> set (entity_rows pg eid missing now)"
  shows "d_timestamp fd \<le> now \<and> n \<in> set missing \<and>
         (\<exists>fv \<in> stored_rows pg eid n now. fd = stored_data fv)"
proof -
  from assms have "map_of (entity_rows pg eid missing now) n = Some fd"
    using entity_rows_distinct by simp
  then have s: "slot (reshape (point_in_time_query pg [eid] missing now)) eid n = Some fd"
    by (simp add: entity_rows_slot)
  with point_in_time_slot [of pg "[eid]" missing now eid n] show ?thesis
    by (cases "n \<in> set missing") auto
qed

lemma length_filter_all: "length (filter P xs) = length xs \<longleftrightarrow> (\<forall>x \<in> set xs. P x)"
proof (induction xs)
  case Nil
  show ?case by simp
next
  case (Cons x xs)
  have "length (filter P xs) \<noteq> Suc (length xs)"
    using length_filter_le [of P xs] by arith
  with Cons show ?case by auto
qed

lemma make_response_fst:
  "fst (make_response req fs ms h app) =
     Inr \<lparr>r_entity_id = entity_id req, r_features = fs, r_timestamp = clock app (ticks app),
          r_source = (if h \<and> ms = [] then ''cache'' else ''database''), r_cache_hit = h\<rparr>"
  by (simp add: make_response_def utcnow_def)

text \<open>
  Claim C2, amended. When the handler answers, with \<open>cached\<close> the replies of the cache
  for the requested names: the flag \<^verbatim>\<open>cache_hit\<close> is true exactly when no reply is
  absent (all N names hit); the source tag is \<^verbatim>\<open>cache\<close> in that case and
  \<^verbatim>\<open>database\<close> in every other case, partial hits included; it is never
  \<^verbatim>\<open>mixed\<close>.
\<close>

theorem online_source_tag:
  assumes c: "cache app = Some rd"
    and g: "fst (get_many rd (map (cache_key (entity_id req)) (feature_names req))) = Inr cached"
    and r: "fst (get_online_features app req) = Inr resp"
  shows "r_cache_hit resp = (None \<notin> set cached) \<and>
         r_source resp = (if None \<notin> set cached then ''cache'' else ''database'') \<and>
         r_source resp \<noteq> ''mixed'' \<and>
         (None \<notin> set cached \<longleftrightarrow>
            length (filter (\<lambda>v. v \<noteq> None) cached) = length (feature_names req))"
proof -
  have len: "length cached = length (feature_names req)"
    using get_many_length [OF g] by simp
  have k: "None \<notin> set cached \<longleftrightarrow>
      length (filter (\<lambda>v. v \<noteq> None) cached) = length (feature_names req)"
    unfolding len [symmetric] length_filter_all by metis
  have mn: "miss_names (feature_names req) cached = [] \<longleftrightarrow> None \<notin> set cached"
    using len by (rule miss_names_Nil_iff)
  from online_unfold [OF c g] obtain fs where
    u: "get_online_features app req =
       (if None \<notin> set cached
        then make_response req fs [] True
               (app\<lparr>cache := Some (snd (get_many rd (map (cache_key (entity_id req)) (feature_names req))))\<rparr>)
        else if fst (pg_roundtrip (store app))
        then (Inl PostgresError,
              app\<lparr>cache := Some (snd (get_many rd (map (cache_key (entity_id req)) (feature_names req)))),
                  ticks := ticks app + 1, store := snd (pg_roundtrip (store app))\<rparr>)
        else (case process_db (entity_id req) fs
                    (app\<lparr>cache := Some (snd (get_many rd (map (cache_key (entity_id req)) (feature_names req)))),
                        ticks := ticks app + 1, store := snd (pg_roundtrip (store app))\<rparr>)
                    (entity_rows (store app) (entity_id req)
                       (miss_names (feature_names req) cached) (clock app (ticks app))) of
                ((fs', cd), app3) \<Rightarrow>
                  make_response req fs' (miss_names (feature_names req) cached) False
                    (app3\<lparr>cache := Some (snd (set_many
                        (snd (get_many rd (map (cache_key (entity_id req)) (feature_names req))))
                        cd 3600))\<rparr>)))"
    by blast
  have "r_cache_hit resp = (None \<notin> set cached) \<and>
         r_source resp = (if None \<notin> set cached then ''cache'' else ''database'')"
    using r unfolding u
    by (auto simp: make_response_fst split: if_splits prod.splits)
  then show ?thesis using k by auto
qed

lemma online_all_hits:
  assumes c: "cache app = Some rd"
    and g: "fst (get_many rd (map (cache_key (entity_id req)) (feature_names req))) = Inr cached"
    and h: "None \<notin> set cached"
  shows "\<exists>fs. fst ` set fs = set (hit_names (feature_names req) cached) \<and>
      get_online_features app req =
        make_response req fs [] True
          (app\<lparr>cache := Some (snd (get_many rd (map (cache_key (entity_id req)) (feature_names req))))\<rparr>)"
  using online_unfold [OF c g] h by auto

lemma online_store_fails:
  assumes c: "cache app = Some rd"
    and g: "fst (get_many rd (map (cache_key (entity_id req)) (feature_names req))) = Inr cached"
    and m: "None \<in> set cached"
    and f: "fst (pg_roundtrip (store app))"
  shows "get_online_features app req =
     (Inl PostgresError,
      app\<lparr>cache := Some (snd (get_many rd (map (cache_key (entity_id req)) (feature_names req)))),
          ticks := ticks app + 1, store := snd (pg_roundtrip (store app))\<rparr>)"
  using online_unfold [OF c g] m f by auto

lemma online_store_ok:
  assumes c: "cache app = Some rd"
    and g: "fst (get_many rd (map (cache_key (entity_id req)) (feature_names req))) = Inr cached"
    and m: "None \<in> set cached"
    and f: "\<not> fst (pg_roundtrip (store app))"
  shows "\<exists>fs fs' cd app3.
      fst ` set fs = set (hit_names (feature_names req) cached) \<and>
      process_db (entity_id req) fs
        (app\<lparr>cache := Some (snd (get_many rd (map (cache_key (entity_id req)) (feature_names req)))),
            ticks := ticks app + 1, store := snd (pg_roundtrip (store app))\<rparr>)
        (entity_rows (store app) (entity_id req)
           (miss_names (feature_names req) cached) (clock app (ticks app))) = ((fs', cd), app3) \<and>
      get_online_features app req =
        make_response req fs' (miss_names (feature_names req) cached) False
          (app3\<lparr>cache := Some (snd (set_many
              (snd (get_many rd (map (cache_key (entity_id req)) (feature_names req)))) cd 3600))\<rparr>)"
proof -
  from online_unfold [OF c g] m f obtain fs where
    d: "fst ` set fs = set (hit_names (feature_names req) cached)" and
    u: "get_online_features app req =
        (case process_db (entity_id req) fs
                    (app\<lparr>cache := Some (snd (get_many rd (map (cache_key (entity_id req)) (feature_names req)))),
                        ticks := ticks app + 1, store := snd (pg_roundtrip (store app))\<rparr>)
                    (entity_rows (store app) (entity_id req)
                       (miss_names (feature_names req) cached) (clock app (ticks app))) of
                ((fs', cd), app3) \<Rightarrow>
                  make_response req fs' (miss_names (feature_names req) cached) False
                    (app3\<lparr>cache := Some (snd (set_many
                        (snd (get_many rd (map (cache_key (entity_id req)) (feature_names req))))
                        cd 3600))\<rparr>))"
    by auto
  obtain fs' cd app3 where pd: "process_db (entity_id req) fs
        (app\<lparr>cache := Some (snd (get_many rd (map (cache_key (entity_id req)) (feature_names req)))),
            ticks := ticks app + 1, store := snd (pg_roundtrip (store app))\<rparr>)
        (entity_rows (store app) (entity_id req)
           (miss_names (feature_names req) cached) (clock app (ticks app))) = ((fs', cd), app3)"
    by (metis surj_pair)
  from d pd u show ?thesis by (intro exI [of _ fs] exI [of _ fs'] exI [of _ cd] exI [of _ app3]) simp
qed

lemma hit_miss_partition:
  "length ns = length cs \<Longrightarrow> set ns = set (hit_names ns cs) \<union> set (miss_names ns cs)"
  by (induction ns cs rule: list_induct2) (auto simp: hit_names_def miss_names_def)

text \<open>
  Claim C7. With a cache attached and the store query (when one is needed) not failing,
  the handler answers with a response, never an error; the names in its features map are
  among the requested names; a name that missed the cache and has no stored row as of
  the query instant is left out of the map; and every requested name that hit the cache
  or has such a row is in the map.
\<close>

theorem online_partial_result:
  assumes c: "cache app = Some rd"
    and g: "fst (get_many rd (map (cache_key (entity_id req)) (feature_names req))) = Inr cached"
    and ok: "None \<notin> set cached \<or> \<not> fst (pg_roundtrip (store app))"
  shows "\<exists>resp. fst (get_online_features app req) = Inr resp \<and>
     fst ` set (r_features resp) \<subseteq> set (feature_names req) \<and>
     (\<forall>n. n \<notin> set (hit_names (feature_names req) cached) \<and>
          stored_rows (store app) (entity_id req) n (clock app (ticks app)) = {}
          \<longrightarrow> n \<notin> fst ` set (r_features resp)) \<and>
     (\<forall>n \<in> set (feature_names req).
          n \<in> set (hit_names (feature_names req) cached) \<or>
          stored_rows (store app) (entity_id req) n (clock app (ticks app)) \<noteq> {}
          \<longrightarrow> n \<in> fst ` set (r_features resp))"
proof (cases "None \<in> set cached")
  case False
  from online_all_hits [OF c g] False obtain fs where
    d: "fst ` set fs = set (hit_names (feature_names req) cached)" and
    u: "fst (get_online_features app req) = fst (make_response req fs [] True
          (app\<lparr>cache := Some (snd (get_many rd (map (cache_key (entity_id req)) (feature_names req))))\<rparr>))"
    by auto
  have len: "length cached = length (feature_names req)"
    using get_many_length [OF g] by simp
  have all: "set (hit_names (feature_names req) cached) = set (feature_names req)"
    using hit_miss_partition [of "feature_names req" cached] miss_names_Nil_iff [of cached "feature_names req"]
      False len by simp
  show ?thesis
    unfolding u make_response_fst using d all by auto
next
  case True
  with ok have f: "\<not> fst (pg_roundtrip (store app))" by simp
  from online_store_ok [OF c g True f] obtain fs fs' cd app3 where
    d: "fst ` set fs = set (hit_names (feature_names req) cached)" and
    pd: "process_db (entity_id req) fs
        (app\<lparr>cache := Some (snd (get_many rd (map (cache_key (entity_id req)) (feature_names req)))),
            ticks := ticks app + 1, store := snd (pg_roundtrip (store app))\<rparr>)
        (entity_rows (store app) (entity_id req)
           (miss_names (feature_names req) cached) (clock app (ticks app))) = ((fs', cd), app3)" and
    u: "get_online_features app req =
        make_response req fs' (miss_names (feature_names req) cached) False
          (app3\<lparr>cache := Some (snd (set_many
              (snd (get_many rd (map (cache_key (entity_id req)) (feature_names req)))) cd 3600))\<rparr>)"
    by blast
  have d': "fst ` set fs' = set (hit_names (feature_names req) cached) \<union>
      {n \<in> set (miss_names (feature_names req) cached).
         stored_rows (store app) (entity_id req) n (clock app (ticks app)) \<noteq> {}}"
    using foldl_db_step_dom [OF pd [unfolded process_db_def]] d
    by (simp add: entity_rows_dom)
  have part: "set (feature_names req) =
      set (hit_names (feature_names req) cached) \<union> set (miss_names (feature_names req) cached)"
    using hit_miss_partition [of "feature_names req" cached] get_many_length [OF g] by simp
  show ?thesis
    unfolding u make_response_fst using d' hit_names_subset miss_names_subset part
    by auto
qed

text \<open>
  Claim C8, amended. When some requested name missed the cache and the store query
  fails, the route answers with status 500 through the global exception handler (not
  503). When every requested name hit the cache, the route answers 200 with source
  \<^verbatim>\<open>cache\<close> and the store is not touched, whatever its availability.
\<close>

theorem online_store_failure_status:
  assumes c: "cache app = Some rd"
    and g: "fst (get_many rd (map (cache_key (entity_id req)) (feature_names req))) = Inr cached"
  shows "(None \<in> set cached \<and> fst (pg_roundtrip (store app)) \<longrightarrow>
            fst (post_features_online app req) =
              JsonError 500 ''Internal server error''
                (if log_level (app_settings app) = ''DEBUG'' then Some (exn_text PostgresError) else None)) \<and>
         (None \<notin> set cached \<longrightarrow>
            (\<exists>resp. fst (post_features_online app req) = Json200 resp \<and> r_source resp = ''cache'' \<and>
                    r_cache_hit resp) \<and>
            store (snd (post_features_online app req)) = store app)"
proof -
  have a: "fst (post_features_online app req) =
              JsonError 500 ''Internal server error''
                (if log_level (app_settings app) = ''DEBUG'' then Some (exn_text PostgresError) else None)"
    if "None \<in> set cached" "fst (pg_roundtrip (store app))"
    using online_store_fails [OF c g that]
    by (simp add: post_features_online_def global_exception_handler_def)
  have b: "(\<exists>resp. fst (post_features_online app req) = Json200 resp \<and> r_source resp = ''cache'' \<and>
                    r_cache_hit resp) \<and>
            store (snd (post_features_online app req)) = store app"
    if "None \<notin> set cached"
  proof -
    from online_all_hits [OF c g that] obtain fs where
      u: "get_online_features app req = make_response req fs [] True
          (app\<lparr>cache := Some (snd (get_many rd (map (cache_key (entity_id req)) (feature_names req))))\<rparr>)"
      by blast
    show ?thesis
      unfolding post_features_online_def u
      by (simp add: make_response_def utcnow_def)
  qed
  from a b show ?thesis by blast
qed

text \<open>
  Claim C4, amended. A feature that missed the cache and is returned from the store has
  a timestamp not after the clock reading passed to the query, and its
  \<^verbatim>\<open>freshness_seconds\<close> is a later clock reading minus that timestamp, unclamped:
  it is non-negative exactly when that later reading is not before the timestamp.
\<close>

theorem online_freshness_unclamped:
  assumes c: "cache app = Some rd"
    and g: "fst (get_many rd (map (cache_key (entity_id req)) (feature_names req))) = Inr cached"
    and r: "fst (get_online_features app req) = Inr resp"
    and n: "n \<notin> set (hit_names (feature_names req) cached)"
    and v: "map_of (r_features resp) n = Some fv"
  shows "v_timestamp fv \<le> clock app (ticks app) \<and>
         (\<exists>k > ticks app.
            v_freshness_seconds fv = Some (age_seconds (clock app k) (v_timestamp fv)) \<and>
            (0 \<le> age_seconds (clock app k) (v_timestamp fv) \<longleftrightarrow> v_timestamp fv \<le> clock app k))"
proof -
  have age: "0 \<le> age_seconds a b \<longleftrightarrow> b \<le> a" for a b
    by (simp add: age_seconds_def zero_le_divide_iff)
  show ?thesis
  proof (cases "None \<in> set cached")
    case False
    from online_all_hits [OF c g False] obtain fs where
      d: "fst ` set fs = set (hit_names (feature_names req) cached)" and
      u: "get_online_features app req = make_response req fs [] True
          (app\<lparr>cache := Some (snd (get_many rd (map (cache_key (entity_id req)) (feature_names req))))\<rparr>)"
      by blast
    from r have "r_features resp = fs" unfolding u by (auto simp: make_response_fst)
    with v have "n \<in> fst ` set fs" by (metis map_of_eq_None_iff option.distinct(1))
    with d n show ?thesis by simp
  next
    case True
    have f: "\<not> fst (pg_roundtrip (store app))"
    proof
      assume "fst (pg_roundtrip (store app))"
      from online_store_fails [OF c g True this] r show False by simp
    qed
    let ?app2 = "app\<lparr>cache := Some (snd (get_many rd (map (cache_key (entity_id req)) (feature_names req)))),
            ticks := ticks app + 1, store := snd (pg_roundtrip (store app))\<rparr>"
    let ?ef = "entity_rows (store app) (entity_id req)
           (miss_names (feature_names req) cached) (clock app (ticks app))"
    from online_store_ok [OF c g True f] obtain fs fs' cd app3 where
      d: "fst ` set fs = set (hit_names (feature_names req) cached)" and
      pd: "process_db (entity_id req) fs ?app2 ?ef = ((fs', cd), app3)" and
      u: "get_online_features app req =
        make_response req fs' (miss_names (feature_names req) cached) False
          (app3\<lparr>cache := Some (snd (set_many
              (snd (get_many rd (map (cache_key (entity_id req)) (feature_names req)))) cd 3600))\<rparr>)"
      by blast
    from r have "r_features resp = fs'" unfolding u by (auto simp: make_response_fst)
    with v have v': "map_of fs' n = Some fv" by simp
    from d n have "map_of fs n = None" by (simp add: map_of_eq_None_iff)
    with foldl_db_step_prov [OF pd [unfolded process_db_def] v']
    obtain k fd where k: "ticks ?app2 \<le> k" and m: "(n, fd) \<in> set ?ef"
      and fv: "fv = \<lparr>v_value = d_value fd, v_timestamp = d_timestamp fd,
            v_freshness_seconds = Some (age_seconds (clock ?app2 k) (d_timestamp fd))\<rparr>"
      by auto
    from entity_rows_member [OF m] have le: "d_timestamp fd \<le> clock app (ticks app)" by simp
    from k have k': "ticks app < k" by simp
    from fv have 1: "v_timestamp fv = d_timestamp fd"
      and 2: "v_freshness_seconds fv = Some (age_seconds (clock app k) (v_timestamp fv))"
      by simp_all
    from le 1 k' 2 age show ?thesis by auto
  qed
qed

lemma get_many_empty_cache:
  assumes "rd_keys r = []"
  shows "fst (get_many r keys) = Inr (replicate (length keys) None)"
proof -
  have "cached_record r = (\<lambda>k. None)"
    using assms by (simp add: fun_eq_iff cached_record_def redis_get_def)
  then have "map (cached_record r) keys = replicate (length keys) None"
    by (simp add: map_replicate_const)
  then show ?thesis by (simp add: get_many_eq)
qed

lemma miss_names_replicate_None: "miss_names ns (replicate (length ns) None) = ns"
  by (induction ns) (auto simp: miss_names_def)

section \<open>Evaluated reads\<close>

lemma cached_both:
  "fst (get_many rd_warm (map (cache_key (entity_id req_both)) (feature_names req_both))) =
     Inr [Some entry_age, None]"
  by code_simp

lemma cached_three:
  "fst (get_many rd_warm (map (cache_key (entity_id req_three)) (feature_names req_three))) =
     Inr [Some entry_age, None, None]"
  by code_simp

lemma cached_age:
  "fst (get_many rd_warm (map (cache_key (entity_id req_age)) (feature_names req_age))) =
     Inr [Some entry_age]"
  by code_simp

lemma mixed_read: "fst (get_online_features app_mixed req_both) = Inr resp_mixed"
  by code_simp

text \<open>
  Claim C2, as stated, fails: one of two requested names hits the cache, the other is
  found in the store, and the source tag is \<^verbatim>\<open>database\<close>.
\<close>

theorem online_mixed_source_counterexample:
  "fst (get_many rd_warm (map (cache_key (entity_id req_both)) (feature_names req_both))) =
     Inr [Some entry_age, None] \<and>
   fst (get_online_features app_mixed req_both) = Inr resp_mixed \<and>
   map fst (r_features resp_mixed) = [''user_age'', ''user_ltv''] \<and>
   r_source resp_mixed = ''database''"
  using cached_both mixed_read by (simp add: resp_mixed_def)

theorem online_source_tag_witness:
  "cache app_mixed = Some rd_warm \<and>
   fst (get_many rd_warm (map (cache_key (entity_id req_both)) (feature_names req_both))) =
     Inr [Some entry_age, None] \<and>
   fst (get_online_features app_mixed req_both) = Inr resp_mixed \<and>
   r_cache_hit resp_mixed = (None \<notin> set [Some entry_age, None]) \<and>
   r_source resp_mixed = (if None \<notin> set [Some entry_age, None] then ''cache'' else ''database'') \<and>
   r_source resp_mixed \<noteq> ''mixed''"
proof -
  have c: "cache app_mixed = Some rd_warm" by (simp add: app_mixed_def)
  from c cached_both mixed_read online_source_tag [OF c cached_both mixed_read]
  show ?thesis by blast
qed

theorem online_partial_result_witness:
  "cache app_mixed = Some rd_warm \<and>
   fst (get_many rd_warm (map (cache_key (entity_id req_three)) (feature_names req_three))) =
     Inr [Some entry_age, None, None] \<and>
   \<not> fst (pg_roundtrip (store app_mixed)) \<and>
   (\<exists>resp. fst (get_online_features app_mixed req_three) = Inr resp \<and>
      fst ` set (r_features resp) \<subseteq> set (feature_names req_three) \<and>
      ''user_zip'' \<notin> fst ` set (r_features resp) \<and>
      ''user_age'' \<in> fst ` set (r_features resp) \<and>
      ''user_ltv'' \<in> fst ` set (r_features resp))"
proof -
  have c: "cache app_mixed = Some rd_warm" by (simp add: app_mixed_def)
  have ok: "\<not> fst (pg_roundtrip (store app_mixed))"
    by (simp add: app_mixed_def pg_users_def pg_roundtrip_def)
  then have ok': "None \<notin> set [Some entry_age, None, None] \<or> \<not> fst (pg_roundtrip (store app_mixed))"
    by simp
  have zip_miss: "''user_zip'' \<notin> set (hit_names (feature_names req_three) [Some entry_age, None, None])"
    by (simp add: hit_names_def req_three_def)
  have age_hit: "''user_age'' \<in> set (hit_names (feature_names req_three) [Some entry_age, None, None])"
    by (simp add: hit_names_def req_three_def)
  have zip_none: "stored_rows (store app_mixed) (entity_id req_three) ''user_zip''
      (clock app_mixed (ticks app_mixed)) = {}"
    by (auto simp: stored_rows_def app_mixed_def pg_users_def req_three_def)
  have "\<lparr>fv_feature_id = 2, fv_entity_id = ''u42'', fv_timestamp = 9000000,
          fv_value = JInt 1500, fv_metadata = JNull\<rparr>
        \<in> stored_rows (store app_mixed) (entity_id req_three) ''user_ltv''
            (clock app_mixed (ticks app_mixed))"
    by (simp add: stored_rows_def app_mixed_def pg_users_def req_three_def)
  then have ltv_some: "stored_rows (store app_mixed) (entity_id req_three) ''user_ltv''
      (clock app_mixed (ticks app_mixed)) \<noteq> {}"
    by blast
  have names: "''user_age'' \<in> set (feature_names req_three)" "''user_ltv'' \<in> set (feature_names req_three)"
    by (simp_all add: req_three_def)
  from online_partial_result [OF c cached_three ok'] obtain resp where
    r: "fst (get_online_features app_mixed req_three) = Inr resp"
    and s: "fst ` set (r_features resp) \<subseteq> set (feature_names req_three)"
    and o: "\<forall>n. n \<notin> set (hit_names (feature_names req_three) [Some entry_age, None, None]) \<and>
          stored_rows (store app_mixed) (entity_id req_three) n (clock app_mixed (ticks app_mixed)) = {}
          \<longrightarrow> n \<notin> fst ` set (r_features resp)"
    and p: "\<forall>n \<in> set (feature_names req_three).
          n \<in> set (hit_names (feature_names req_three) [Some entry_age, None, None]) \<or>
          stored_rows (store app_mixed) (entity_id req_three) n (clock app_mixed (ticks app_mixed)) \<noteq> {}
          \<longrightarrow> n \<in> fst ` set (r_features resp)"
    by blast
  from o zip_miss zip_none have z: "''user_zip'' \<notin> fst ` set (r_features resp)" by blast
  from p names age_hit have a: "''user_age'' \<in> fst ` set (r_features resp)" by blast
  from p names ltv_some have l: "''user_ltv'' \<in> fst ` set (r_features resp)" by blast
  from c cached_three ok r s z a l show ?thesis by blast
qed

text \<open>
  Claim C4, as stated, fails: when the clock steps back after the reading passed to the
  store query, the returned \<^verbatim>\<open>freshness_seconds\<close> is negative.
\<close>

theorem online_freshness_negative_counterexample:
  "fst (get_online_features app_skew req_age) = Inr resp_skew \<and>
   map_option v_freshness_seconds (map_of (r_features resp_skew) ''user_age'') = Some (Some (- 2))"
  by code_simp

theorem online_freshness_unclamped_witness:
  "cache app_mixed = Some rd_warm \<and>
   fst (get_many rd_warm (map (cache_key (entity_id req_both)) (feature_names req_both))) =
     Inr [Some entry_age, None] \<and>
   fst (get_online_features app_mixed req_both) = Inr resp_mixed \<and>
   ''user_ltv'' \<notin> set (hit_names (feature_names req_both) [Some entry_age, None]) \<and>
   map_of (r_features resp_mixed) ''user_ltv'' =
     Some \<lparr>v_value = JInt 1500, v_timestamp = 9000000, v_freshness_seconds = Some 6\<rparr> \<and>
   9000000 \<le> clock app_mixed (ticks app_mixed) \<and>
   (\<exists>k > ticks app_mixed.
      Some 6 = Some (age_seconds (clock app_mixed k) 9000000) \<and>
      (0 \<le> age_seconds (clock app_mixed k) 9000000 \<longleftrightarrow> 9000000 \<le> clock app_mixed k))"
proof -
  have c: "cache app_mixed = Some rd_warm" by (simp add: app_mixed_def)
  have n: "''user_ltv'' \<notin> set (hit_names (feature_names req_both) [Some entry_age, None])"
    by (simp add: hit_names_def req_both_def)
  have v: "map_of (r_features resp_mixed) ''user_ltv'' =
     Some \<lparr>v_value = JInt 1500, v_timestamp = 9000000, v_freshness_seconds = Some 6\<rparr>"
    by (simp add: resp_mixed_def)
  from c cached_both mixed_read n v
    online_freshness_unclamped [OF c cached_both mixed_read n v]
  show ?thesis by simp
qed

text \<open>
  Claim C8, as stated, fails: with a name missing from the cache and the store query
  failing, the route answers 500.
\<close>

theorem online_store_failure_500_counterexample:
  "fst (get_many rd_warm (map (cache_key (entity_id req_both)) (feature_names req_both))) =
     Inr [Some entry_age, None] \<and>
   fst (pg_roundtrip (store app_store_down)) \<and>
   fst (post_features_online app_store_down req_both) =
     JsonError 500 ''Internal server error'' None"
  by code_simp

theorem online_store_failure_status_witness:
  "cache app_store_down = Some rd_warm \<and>
   fst (get_many rd_warm (map (cache_key (entity_id req_both)) (feature_names req_both))) =
     Inr [Some entry_age, None] \<and>
   None \<in> set [Some entry_age, None] \<and> fst (pg_roundtrip (store app_store_down)) \<and>
   fst (post_features_online app_store_down req_both) =
     JsonError 500 ''Internal server error'' None \<and>
   fst (get_many rd_warm (map (cache_key (entity_id req_age)) (feature_names req_age))) =
     Inr [Some entry_age] \<and>
   None \<notin> set [Some entry_age] \<and>
   (\<exists>resp. fst (post_features_online app_store_down req_age) = Json200 resp \<and>
      r_source resp = ''cache'' \<and> r_cache_hit resp) \<and>
   store (snd (post_features_online app_store_down req_age)) = store app_store_down"
proof -
  have c: "cache app_store_down = Some rd_warm"
    by (simp add: app_store_down_def app_mixed_def)
  have f: "fst (pg_roundtrip (store app_store_down))"
    by (simp add: app_store_down_def pg_roundtrip_def)
  have l: "log_level (app_settings app_store_down) \<noteq> ''DEBUG''"
    by (simp add: app_store_down_def app_mixed_def)
  have m: "None \<in> set [Some entry_age, None]" by simp
  have h: "None \<notin> set [Some entry_age]" by simp
  from online_store_failure_status [OF c cached_both] m f l
  have 1: "fst (post_features_online app_store_down req_both) =
     JsonError 500 ''Internal server error'' None"
    by simp
  from online_store_failure_status [OF c cached_age] h
  have 2: "(\<exists>resp. fst (post_features_online app_store_down req_age) = Json200 resp \<and>
      r_source resp = ''cache'' \<and> r_cache_hit resp) \<and>
   store (snd (post_features_online app_store_down req_age)) = store app_store_down"
    by blast
  from c cached_both m f 1 cached_age h 2 show ?thesis by blast
qed

text \<open>
  The handler never changes the keys of the cache: the records it prepares carry the
  row's timestamp as a \<^verbatim>\<open>datetime\<close>, \<^verbatim>\<open>set_many\<close> cannot serialize them and
  swallows the error.
\<close>

lemma update_all_snd:
  "\<forall>e \<in> set al. P (snd e) \<Longrightarrow> P v \<Longrightarrow> \<forall>e \<in> set (AList.update k v al). P (snd e)"
  by (induction al) auto

lemma foldl_db_step_datetime:
  "foldl (db_step eid) ((fs, cd), app) ef = ((fs', cd'), app') \<Longrightarrow>
   (\<forall>e \<in> set cd. \<exists>t. c_timestamp (snd e) = DateTime t) \<Longrightarrow>
   (\<forall>e \<in> set cd'. \<exists>t. c_timestamp (snd e) = DateTime t)"
proof (induction ef arbitrary: fs cd app)
  case Nil
  then show ?case by simp
next
  case (Cons x ef)
  obtain n fd where x: "x = (n, fd)" by (cases x)
  let ?c = "\<lparr>c_value = d_value fd, c_timestamp = DateTime (d_timestamp fd),
          c_freshness_seconds = Some (age_seconds (clock app (ticks app)) (d_timestamp fd))\<rparr>"
  have "\<forall>e \<in> set (AList.update (cache_key eid n) ?c cd). \<exists>t. c_timestamp (snd e) = DateTime t"
    using Cons.prems(2) by (intro update_all_snd) simp_all
  then show ?case
    using Cons.prems(1) Cons.IH unfolding x by (simp add: db_step_eq)
qed

lemma get_many_keeps_keys: "rd_keys (snd (get_many r keys)) = rd_keys r"
  by (cases "rd_faults r"; cases "decode_all (map (redis_get r) keys)")
     (auto simp: get_many_def get_many_try_def redis_roundtrip_def)

lemma make_response_snd: "snd (make_response req fs ms h app) = app\<lparr>ticks := ticks app + 1\<rparr>"
  by (simp add: make_response_def utcnow_def)

lemma online_read_keeps_cache:
  assumes c: "cache app = Some rd"
  shows "\<exists>rd'. cache (snd (get_online_features app req)) = Some rd' \<and> rd_keys rd' = rd_keys rd"
proof -
  let ?keys = "map (cache_key (entity_id req)) (feature_names req)"
  let ?rd1 = "snd (get_many rd ?keys)"
  obtain cached where g: "fst (get_many rd ?keys) = Inr cached"
    by (auto simp: get_many_eq)
  have k1: "rd_keys ?rd1 = rd_keys rd" by (rule get_many_keeps_keys)
  show ?thesis
  proof (cases "None \<in> set cached")
    case False
    from online_all_hits [OF c g False] k1 show ?thesis
      by (auto simp: make_response_snd)
  next
    case True
    show ?thesis
    proof (cases "fst (pg_roundtrip (store app))")
      case f: True
      from online_store_fails [OF c g True f] k1 show ?thesis by simp
    next
      case f: False
      from online_store_ok [OF c g True f] obtain fs fs' cd app3 where
        pd: "process_db (entity_id req) fs
          (app\<lparr>cache := Some ?rd1, ticks := ticks app + 1, store := snd (pg_roundtrip (store app))\<rparr>)
          (entity_rows (store app) (entity_id req)
             (miss_names (feature_names req) cached) (clock app (ticks app))) = ((fs', cd), app3)" and
        u: "get_online_features app req =
          make_response req fs' (miss_names (feature_names req) cached) False
            (app3\<lparr>cache := Some (snd (set_many ?rd1 cd 3600))\<rparr>)"
        by blast
      have "\<forall>e \<in> set cd. \<exists>t. c_timestamp (snd e) = DateTime t"
        using foldl_db_step_datetime [OF pd [unfolded process_db_def]] by simp
      then have "set_many ?rd1 cd 3600 = (Inr (), ?rd1)" by (rule set_many_datetime)
      with u k1 show ?thesis by (simp add: make_response_snd)
    qed
  qed
qed

text \<open>
  A read from an empty cache whose store query does not fail: the source is
  \<^verbatim>\<open>database\<close>, the store sees exactly one round trip, and the cache is still empty
  afterwards.
\<close>

lemma cold_read_outcome:
  assumes c: "cache app = Some rd"
    and e: "rd_keys rd = []"
    and ne: "feature_names req \<noteq> []"
    and pg: "\<not> fst (pg_roundtrip (store app))"
  shows "\<exists>resp. fst (get_online_features app req) = Inr resp \<and>
      r_source resp = ''database'' \<and> \<not> r_cache_hit resp \<and>
      pg_statements (store (snd (get_online_features app req))) = pg_statements (store app) + 1 \<and>
      (\<exists>rd'. cache (snd (get_online_features app req)) = Some rd' \<and> rd_keys rd' = [])"
proof -
  let ?names = "feature_names req"
  let ?keys = "map (cache_key (entity_id req)) ?names"
  let ?cached = "replicate (length ?names) (None :: cache_entry option)"
  have g: "fst (get_many rd ?keys) = Inr ?cached"
    using get_many_empty_cache [OF e, of ?keys] by simp
  have m: "None \<in> set ?cached" using ne by simp
  have mn: "miss_names ?names ?cached \<noteq> []" using ne by (simp add: miss_names_replicate_None)
  from online_store_ok [OF c g m pg] obtain fs fs' cd app3 where
    pd: "process_db (entity_id req) fs
           (app\<lparr>cache := Some (snd (get_many rd ?keys)),
                ticks := ticks app + 1, store := snd (pg_roundtrip (store app))\<rparr>)
           (entity_rows (store app) (entity_id req) (miss_names ?names ?cached) (clock app (ticks app)))
         = ((fs', cd), app3)" and
    u: "get_online_features app req =
        make_response req fs' (miss_names ?names ?cached) False
          (app3\<lparr>cache := Some (snd (set_many (snd (get_many rd ?keys)) cd 3600))\<rparr>)"
    by blast
  have st: "store app3 = snd (pg_roundtrip (store app))"
    using process_db_frame [OF pd] by simp
  have cnt: "pg_statements (snd (pg_roundtrip (store app))) = pg_statements (store app) + 1"
    by (cases "pg_faults (store app)") (simp_all add: pg_roundtrip_def)
  from online_read_keeps_cache [OF c, of req] e
  have keep: "\<exists>rd'. cache (snd (get_online_features app req)) = Some rd' \<and> rd_keys rd' = []"
    by simp
  have "fst (get_online_features app req) =
      Inr \<lparr>r_entity_id = entity_id req, r_features = fs',
           r_timestamp = clock app3 (ticks app3), r_source = ''database'', r_cache_hit = False\<rparr>"
    unfolding u using mn by (simp add: make_response_fst)
  moreover have "pg_statements (store (snd (get_online_features app req))) = pg_statements (store app) + 1"
    unfolding u by (simp add: make_response_snd st cnt)
  ultimately show ?thesis using keep by simp
qed

text \<open>
  Claim C9, at an input where the code departs from it: with
  \<^verbatim>\<open>cache_ttl_seconds\<close> configured as 60 and an empty cache, the read answers from
  the database with exactly one store round trip, but the cache is still empty
  afterwards: the returned feature is not backfilled, with no TTL at all.
\<close>

theorem cold_read_leaves_cache_empty:
  "cache_ttl_seconds (app_settings app_ttl60) = 60 \<and>
   fst (get_online_features app_ttl60 req_age) =
     Inr \<lparr>r_entity_id = ''u42'',
          r_features =
            [(''user_age'', \<lparr>v_value = JInt 30, v_timestamp = 10000000, v_freshness_seconds = Some 5\<rparr>)],
          r_timestamp = 15000000, r_source = ''database'', r_cache_hit = False\<rparr> \<and>
   pg_statements (store (snd (get_online_features app_ttl60 req_age))) =
     pg_statements (store app_ttl60) + 1 \<and>
   map_option rd_keys (cache (snd (get_online_features app_ttl60 req_age))) = Some []"
  by code_simp

text \<open>Without a cache attached the handler raises, and the route answers 500.\<close>

lemma online_without_cache:
  "cache app = None \<Longrightarrow>
   fst (post_features_online app req) =
     JsonError 500 ''Internal server error''
       (if log_level (app_settings app) = ''DEBUG'' then Some (exn_text AttributeError) else None)"
  by (simp add: post_features_online_def get_online_features_def global_exception_handler_def)

end
